theory Spec2Isabelle
  imports Main
begin

section \<open>The syntax tree\<close>

text \<open>
  The program works on the syntax trees of Python's \<^verbatim>\<open>ast\<close> module. The fragment
  below has the node kinds the program and its specification talk about: names,
  constants, binary, unary and boolean operations, comparisons, calls, attributes,
  subscripts and tuples as expressions; simple and compound statements; a module.
  An assignment carries its line number, the only position the program reads.
  The fields of every node stand in the order of the node's \<^verbatim>\<open>_fields\<close>, which is
  the order in which \<^verbatim>\<open>generic_visit\<close> walks them.
\<close>

datatype operator = Add | Sub | Mult | Div | FloorDiv | Mod | PowOp | MatMult

datatype unaryop = Invert | NotOp | UAdd | USub

datatype boolop = And | Or

datatype cmpop = Eq | NotEq | Lt | LtE | Gt | GtE | Is | IsNot | In | NotIn

datatype const_value = IntC int | StrC string | BoolC bool | NoneC

datatype expr =
    Constant const_value
  | Name string
  | BinOp expr operator expr
  | UnaryOp unaryop expr
  | BoolOp boolop "expr list"
  | Compare expr "cmpop list" "expr list"
  | Call expr "expr list"
  | Attribute expr string
  | Subscript expr expr
  | Tuple "expr list"

datatype stmt =
    Assign "expr list" expr int
  | AugAssign expr operator expr
  | Expr expr
  | IfStmt expr "stmt list" "stmt list"
  | While expr "stmt list" "stmt list"
  | For expr expr "stmt list" "stmt list"
  | FunctionDef string "string list" "stmt list"
  | Pass

datatype module = Module "stmt list"

fun body :: "module \<Rightarrow> stmt list" where
  "body (Module ss) = ss"

section \<open>Errors and the two libraries\<close>

text \<open>
  Every exception the program can meet is a value; the program catches none, so an
  error ends the run of the file it occurs in.
\<close>

datatype error =
    SyntaxError
  | SympifyError
  | ValueError
  | IndexError
  | AttributeError
  | LibraryError string

definition bind_result :: "error + 'a \<Rightarrow> ('a \<Rightarrow> error + 'b) \<Rightarrow> error + 'b" where
  "bind_result m f = (case m of Inl e \<Rightarrow> Inl e | Inr x \<Rightarrow> f x)"

text \<open>The two equations of \<open>bind_result\<close>, and the congruence rule by which the
  recursive functions below are seen to terminate: the continuation is called on
  the values that the first computation returns.\<close>

lemma bind_result_Inl: "bind_result (Inl e) f = Inl e"
  by (simp add: bind_result_def)

lemma bind_result_Inr: "bind_result (Inr x) f = f x"
  by (simp add: bind_result_def)

lemma bind_result_cong [fundef_cong]:
  "m = m' \<Longrightarrow> (\<And>x. m' = Inr x \<Longrightarrow> f x = f' x) \<Longrightarrow> bind_result m f = bind_result m' f'"
  by (cases m') (simp_all add: bind_result_def)

text \<open>
  The parser and printer of \<^verbatim>\<open>ast\<close> and the functions of SymPy are not code of the
  program: they are parameters. \<open>'sym\<close> is the type of SymPy's expressions. Every
  call that reads text or transforms an expression may raise; the two printers
  (\<^verbatim>\<open>ast.unparse\<close> and \<^verbatim>\<open>str\<close>) return text. The variable that \<^verbatim>\<open>diff\<close> and
  \<^verbatim>\<open>integrate\<close> are called with is a value of Python: the text of a name (a \<^verbatim>\<open>str\<close>)
  or SymPy's symbol of that name.
\<close>

datatype sym_var = Text string | Symbol string

record 'sym engine =
  ast_parse :: "string \<Rightarrow> error + module"
  ast_unparse :: "expr \<Rightarrow> string"
  ast_unparse_module :: "module \<Rightarrow> string"
  sympify :: "string \<Rightarrow> error + 'sym"
  simplify :: "'sym \<Rightarrow> error + 'sym"
  factor :: "'sym \<Rightarrow> error + 'sym"
  expand :: "'sym \<Rightarrow> error + 'sym"
  sym_diff :: "'sym \<Rightarrow> sym_var \<Rightarrow> error + 'sym"
  sym_int :: "'sym \<Rightarrow> sym_var \<Rightarrow> error + 'sym"
  str :: "'sym \<Rightarrow> string"

text \<open>
  What SymPy does with a variable that is given as text. \<^verbatim>\<open>diff\<close> passes its arguments
  through \<^verbatim>\<open>sympify\<close>, so the text of a name stands for the symbol of that name.
  \<^verbatim>\<open>integrate\<close> does not: it takes the text for a malformed limit of integration and
  raises \<^verbatim>\<open>ValueError\<close> (\<^verbatim>\<open>Invalid limits given\<close>). The test suite of the program
  calls both functions with \<^verbatim>\<open>Symbol("x")\<close>.
\<close>

definition sympy_variables :: "'sym engine \<Rightarrow> bool" where
  "sympy_variables E \<longleftrightarrow>
     (\<forall>s v. sym_diff E s (Text v) = sym_diff E s (Symbol v))
     \<and> (\<forall>s v. sym_int E s (Text v) = Inl ValueError)"

text \<open>
  \<^verbatim>\<open>ast.parse(text).body[0].value\<close>: the text is parsed as a module, the first
  statement is taken (an empty module has none) and its \<^verbatim>\<open>value\<close> attribute is read
  (only assignments and expression statements have one).
\<close>

fun stmt_value :: "stmt \<Rightarrow> error + expr" where
  "stmt_value (Assign ts v n) = Inr v"
| "stmt_value (AugAssign t op v) = Inr v"
| "stmt_value (Expr v) = Inr v"
| "stmt_value s = Inl AttributeError"

definition parse_value :: "'sym engine \<Rightarrow> string \<Rightarrow> error + expr" where
  "parse_value E text =
     bind_result (ast_parse E text) (\<lambda>m.
       case body m of [] \<Rightarrow> Inl IndexError | s # rest \<Rightarrow> stmt_value s)"

section \<open>optimizer.py\<close>

text \<open>
  \<^verbatim>\<open>MathOptimizer.optimize_node\<close>; the flag \<open>expand_polynomials\<close> is the field of
  the optimizer object.
\<close>

definition optimize_node :: "'sym engine \<Rightarrow> bool \<Rightarrow> expr \<Rightarrow> error + expr" where
  "optimize_node E expand_polynomials node =
     (let expr_str = ast_unparse E node in
      bind_result (sympify E expr_str) (\<lambda>sym_expr.
      bind_result (simplify E sym_expr) (\<lambda>folded.
      bind_result (factor E folded) (\<lambda>factored.
      bind_result (if expand_polynomials then expand E factored else Inr factored) (\<lambda>final.
      parse_value E (str E final))))))"

text \<open>
  The \<^verbatim>\<open>Transformer\<close> of \<^verbatim>\<open>optimize_tree\<close> is a \<^verbatim>\<open>NodeTransformer\<close> with one method,
  \<^verbatim>\<open>visit_BinOp\<close>: it first runs \<^verbatim>\<open>generic_visit\<close> on the node, which visits the
  fields \<open>left\<close>, \<open>op\<close>, \<open>right\<close> in this order and stores the results in the node,
  and then returns \<open>optimize_node\<close> of the node. Every other node kind goes to
  \<^verbatim>\<open>generic_visit\<close>, which visits the fields that are nodes or lists of nodes and
  stores what the visits return. An operator node has no fields.
\<close>

fun Transformer_visit :: "'sym engine \<Rightarrow> bool \<Rightarrow> expr \<Rightarrow> error + expr"
  and Transformer_visit_list :: "'sym engine \<Rightarrow> bool \<Rightarrow> expr list \<Rightarrow> error + expr list"
where
  "Transformer_visit E x (BinOp l op r) =
     bind_result (Transformer_visit E x l) (\<lambda>l'.
     bind_result (Transformer_visit E x r) (\<lambda>r'.
     optimize_node E x (BinOp l' op r')))"
| "Transformer_visit E x (Constant c) = Inr (Constant c)"
| "Transformer_visit E x (Name n) = Inr (Name n)"
| "Transformer_visit E x (UnaryOp op e) =
     bind_result (Transformer_visit E x e) (\<lambda>e'. Inr (UnaryOp op e'))"
| "Transformer_visit E x (BoolOp op es) =
     bind_result (Transformer_visit_list E x es) (\<lambda>es'. Inr (BoolOp op es'))"
| "Transformer_visit E x (Compare l ops es) =
     bind_result (Transformer_visit E x l) (\<lambda>l'.
     bind_result (Transformer_visit_list E x es) (\<lambda>es'. Inr (Compare l' ops es')))"
| "Transformer_visit E x (Call f args) =
     bind_result (Transformer_visit E x f) (\<lambda>f'.
     bind_result (Transformer_visit_list E x args) (\<lambda>args'. Inr (Call f' args')))"
| "Transformer_visit E x (Attribute e a) =
     bind_result (Transformer_visit E x e) (\<lambda>e'. Inr (Attribute e' a))"
| "Transformer_visit E x (Subscript e i) =
     bind_result (Transformer_visit E x e) (\<lambda>e'.
     bind_result (Transformer_visit E x i) (\<lambda>i'. Inr (Subscript e' i')))"
| "Transformer_visit E x (Tuple es) =
     bind_result (Transformer_visit_list E x es) (\<lambda>es'. Inr (Tuple es'))"
| "Transformer_visit_list E x [] = Inr []"
| "Transformer_visit_list E x (e # es) =
     bind_result (Transformer_visit E x e) (\<lambda>e'.
     bind_result (Transformer_visit_list E x es) (\<lambda>es'. Inr (e' # es')))"

fun Transformer_visit_stmt :: "'sym engine \<Rightarrow> bool \<Rightarrow> stmt \<Rightarrow> error + stmt"
  and Transformer_visit_stmts :: "'sym engine \<Rightarrow> bool \<Rightarrow> stmt list \<Rightarrow> error + stmt list"
where
  "Transformer_visit_stmt E x (Assign ts v n) =
     bind_result (Transformer_visit_list E x ts) (\<lambda>ts'.
     bind_result (Transformer_visit E x v) (\<lambda>v'. Inr (Assign ts' v' n)))"
| "Transformer_visit_stmt E x (AugAssign t op v) =
     bind_result (Transformer_visit E x t) (\<lambda>t'.
     bind_result (Transformer_visit E x v) (\<lambda>v'. Inr (AugAssign t' op v')))"
| "Transformer_visit_stmt E x (Expr v) =
     bind_result (Transformer_visit E x v) (\<lambda>v'. Inr (Expr v'))"
| "Transformer_visit_stmt E x (IfStmt c ss els) =
     bind_result (Transformer_visit E x c) (\<lambda>c'.
     bind_result (Transformer_visit_stmts E x ss) (\<lambda>ss'.
     bind_result (Transformer_visit_stmts E x els) (\<lambda>els'. Inr (IfStmt c' ss' els'))))"
| "Transformer_visit_stmt E x (While c ss els) =
     bind_result (Transformer_visit E x c) (\<lambda>c'.
     bind_result (Transformer_visit_stmts E x ss) (\<lambda>ss'.
     bind_result (Transformer_visit_stmts E x els) (\<lambda>els'. Inr (While c' ss' els'))))"
| "Transformer_visit_stmt E x (For t it ss els) =
     bind_result (Transformer_visit E x t) (\<lambda>t'.
     bind_result (Transformer_visit E x it) (\<lambda>it'.
     bind_result (Transformer_visit_stmts E x ss) (\<lambda>ss'.
     bind_result (Transformer_visit_stmts E x els) (\<lambda>els'. Inr (For t' it' ss' els')))))"
| "Transformer_visit_stmt E x (FunctionDef f ps ss) =
     bind_result (Transformer_visit_stmts E x ss) (\<lambda>ss'. Inr (FunctionDef f ps ss'))"
| "Transformer_visit_stmt E x Pass = Inr Pass"
| "Transformer_visit_stmts E x [] = Inr []"
| "Transformer_visit_stmts E x (s # ss) =
     bind_result (Transformer_visit_stmt E x s) (\<lambda>s'.
     bind_result (Transformer_visit_stmts E x ss) (\<lambda>ss'. Inr (s' # ss')))"

definition optimize_tree :: "'sym engine \<Rightarrow> bool \<Rightarrow> module \<Rightarrow> error + module" where
  "optimize_tree E expand_polynomials tree =
     bind_result (Transformer_visit_stmts E expand_polynomials (body tree)) (\<lambda>ss'.
       Inr (Module ss'))"

section \<open>parser.py\<close>

text \<open>
  \<^verbatim>\<open>MathExtractor\<close> is a \<^verbatim>\<open>NodeVisitor\<close> whose only field is the list \<open>nodes\<close>, set
  to the empty list by the constructor and never reset afterwards. Its
  \<^verbatim>\<open>visit_BinOp\<close> appends the node and then walks the node's fields; every other
  node kind goes to \<^verbatim>\<open>generic_visit\<close>. A visitor returns nothing and stores nothing
  in the tree: the visit functions take the object and return it updated.
\<close>

record MathExtractor =
  nodes :: "expr list"

definition MathExtractor_init :: MathExtractor where
  "MathExtractor_init = \<lparr>nodes = []\<rparr>"

fun MathExtractor_visit :: "expr \<Rightarrow> MathExtractor \<Rightarrow> MathExtractor"
  and MathExtractor_visit_list :: "expr list \<Rightarrow> MathExtractor \<Rightarrow> MathExtractor"
where
  "MathExtractor_visit (BinOp l op r) self =
     (let self1 = self\<lparr>nodes := nodes self @ [BinOp l op r]\<rparr> in
      MathExtractor_visit r (MathExtractor_visit l self1))"
| "MathExtractor_visit (Constant c) self = self"
| "MathExtractor_visit (Name n) self = self"
| "MathExtractor_visit (UnaryOp op e) self = MathExtractor_visit e self"
| "MathExtractor_visit (BoolOp op es) self = MathExtractor_visit_list es self"
| "MathExtractor_visit (Compare l ops es) self =
     MathExtractor_visit_list es (MathExtractor_visit l self)"
| "MathExtractor_visit (Call f args) self =
     MathExtractor_visit_list args (MathExtractor_visit f self)"
| "MathExtractor_visit (Attribute e a) self = MathExtractor_visit e self"
| "MathExtractor_visit (Subscript e i) self =
     MathExtractor_visit i (MathExtractor_visit e self)"
| "MathExtractor_visit (Tuple es) self = MathExtractor_visit_list es self"
| "MathExtractor_visit_list [] self = self"
| "MathExtractor_visit_list (e # es) self =
     MathExtractor_visit_list es (MathExtractor_visit e self)"

fun MathExtractor_visit_stmt :: "stmt \<Rightarrow> MathExtractor \<Rightarrow> MathExtractor"
  and MathExtractor_visit_stmts :: "stmt list \<Rightarrow> MathExtractor \<Rightarrow> MathExtractor"
where
  "MathExtractor_visit_stmt (Assign ts v n) self =
     MathExtractor_visit v (MathExtractor_visit_list ts self)"
| "MathExtractor_visit_stmt (AugAssign t op v) self =
     MathExtractor_visit v (MathExtractor_visit t self)"
| "MathExtractor_visit_stmt (Expr v) self = MathExtractor_visit v self"
| "MathExtractor_visit_stmt (IfStmt c ss els) self =
     MathExtractor_visit_stmts els
       (MathExtractor_visit_stmts ss (MathExtractor_visit c self))"
| "MathExtractor_visit_stmt (While c ss els) self =
     MathExtractor_visit_stmts els
       (MathExtractor_visit_stmts ss (MathExtractor_visit c self))"
| "MathExtractor_visit_stmt (For t it ss els) self =
     MathExtractor_visit_stmts els
       (MathExtractor_visit_stmts ss
         (MathExtractor_visit it (MathExtractor_visit t self)))"
| "MathExtractor_visit_stmt (FunctionDef f ps ss) self = MathExtractor_visit_stmts ss self"
| "MathExtractor_visit_stmt Pass self = self"
| "MathExtractor_visit_stmts [] self = self"
| "MathExtractor_visit_stmts (s # ss) self =
     MathExtractor_visit_stmts ss (MathExtractor_visit_stmt s self)"

text \<open>
  \<^verbatim>\<open>extract\<close> returns the pair \<open>(tree, self.nodes)\<close>; the second component of the
  result below is the object after the call.
\<close>

definition MathExtractor_extract ::
  "'sym engine \<Rightarrow> MathExtractor \<Rightarrow> string \<Rightarrow> error + ((module \<times> expr list) \<times> MathExtractor)" where
  "MathExtractor_extract E self source =
     bind_result (ast_parse E source) (\<lambda>tree.
       let self' = MathExtractor_visit_stmts (body tree) self in
       Inr ((tree, nodes self'), self'))"

section \<open>main.py\<close>

subsection \<open>Text primitives of Python\<close>

text \<open>
  A character is a code point below 256. \<^verbatim>\<open>str.strip\<close> removes the characters that
  \<^verbatim>\<open>str.isspace\<close> accepts: tab to carriage return, the four separators \<^verbatim>\<open>0x1C\<close> to
  \<^verbatim>\<open>0x1F\<close>, the space, \<^verbatim>\<open>0x85\<close> and \<^verbatim>\<open>0xA0\<close>. \<^verbatim>\<open>int\<close> has a white space of
  its own around the numeral: tab to carriage return and the space, and the two
  characters above \<^verbatim>\<open>0x7F\<close>, which it turns into spaces before it reads the text;
  the separators \<^verbatim>\<open>0x1C\<close> to \<^verbatim>\<open>0x1F\<close> are not among them, so \<^verbatim>\<open>int\<close> raises on a
  text that \<^verbatim>\<open>strip\<close> would clean. Between two digits \<^verbatim>\<open>int\<close> accepts one underscore.
  The interpreter's limit on the number of digits \<^verbatim>\<open>int\<close> converts is a setting of
  the run and is left out.
\<close>

definition py_isspace :: "char \<Rightarrow> bool" where
  "py_isspace c = ((of_char c :: nat) \<in> {9, 10, 11, 12, 13, 28, 29, 30, 31, 32, 133, 160})"

definition strip :: "string \<Rightarrow> string" where
  "strip s = rev (dropWhile py_isspace (rev (dropWhile py_isspace s)))"

definition int_isspace :: "char \<Rightarrow> bool" where
  "int_isspace c = ((of_char c :: nat) \<in> {9, 10, 11, 12, 13, 32, 133, 160})"

definition int_strip :: "string \<Rightarrow> string" where
  "int_strip s = rev (dropWhile int_isspace (rev (dropWhile int_isspace s)))"

definition is_digit :: "char \<Rightarrow> bool" where
  "is_digit c = (48 \<le> (of_char c :: nat) \<and> (of_char c :: nat) \<le> 57)"

definition digit_val :: "char \<Rightarrow> nat" where
  "digit_val c = of_char c - 48"

fun digits_from :: "nat \<Rightarrow> string \<Rightarrow> nat option" where
  "digits_from acc [] = Some acc"
| "digits_from acc [c] = (if is_digit c then Some (10 * acc + digit_val c) else None)"
| "digits_from acc (c # d # cs) =
     (if is_digit c then digits_from (10 * acc + digit_val c) (d # cs)
      else if c = CHR ''_'' \<and> is_digit d then digits_from (10 * acc + digit_val d) cs
      else None)"

fun py_digits :: "string \<Rightarrow> nat option" where
  "py_digits [] = None"
| "py_digits (c # cs) = (if is_digit c then digits_from (digit_val c) cs else None)"

definition py_int :: "string \<Rightarrow> error + int" where
  "py_int s =
     (case int_strip s of
        [] \<Rightarrow> Inl ValueError
      | c # cs \<Rightarrow>
          if c = CHR ''-'' then
            (case py_digits cs of None \<Rightarrow> Inl ValueError | Some n \<Rightarrow> Inr (- int n))
          else if c = CHR ''+'' then
            (case py_digits cs of None \<Rightarrow> Inl ValueError | Some n \<Rightarrow> Inr (int n))
          else
            (case py_digits (c # cs) of None \<Rightarrow> Inl ValueError | Some n \<Rightarrow> Inr (int n)))"

text \<open>\<^verbatim>\<open>s.split(sep)\<close> for a separator of one character, and \<^verbatim>\<open>s.split(sep, 1)\<close> for
  a text that holds the separator.\<close>

fun split :: "char \<Rightarrow> string \<Rightarrow> string list" where
  "split sep [] = [[]]"
| "split sep (c # cs) =
     (if c = sep then [] # split sep cs
      else (case split sep cs of [] \<Rightarrow> [[c]] | p # ps \<Rightarrow> (c # p) # ps))"

definition split_once :: "char \<Rightarrow> string \<Rightarrow> string \<times> string" where
  "split_once sep s = (takeWhile (\<lambda>c. c \<noteq> sep) s, drop 1 (dropWhile (\<lambda>c. c \<noteq> sep) s))"

subsection \<open>parse_line_set\<close>

text \<open>The loop over the parts, with the set \<open>lines\<close> built so far.\<close>

fun parse_parts :: "string list \<Rightarrow> int set \<Rightarrow> error + int set" where
  "parse_parts [] lines = Inr lines"
| "parse_parts (p # ps) lines =
     (let part = strip p in
      if part = [] then parse_parts ps lines
      else if CHR ''-'' \<in> set part then
        bind_result (py_int (fst (split_once CHR ''-'' part))) (\<lambda>a.
        bind_result (py_int (snd (split_once CHR ''-'' part))) (\<lambda>b.
        parse_parts ps (lines \<union> set [a..b])))
      else
        bind_result (py_int part) (\<lambda>n. parse_parts ps (insert n lines)))"

definition parse_line_set :: "string \<Rightarrow> error + int set" where
  "parse_line_set spec = parse_parts (split CHR '','' spec) {}"

subsection \<open>The calculus pass of process_file\<close>

text \<open>
  \<^verbatim>\<open>CalcTransformer.visit_Assign\<close>. The test \<^verbatim>\<open>isinstance(node.value, ast.AST)\<close> holds
  of every value of an assignment. \<open>targets[0]\<close> of an assignment without targets
  is an \<^verbatim>\<open>IndexError\<close> (the parser builds none). \<open>varname\<close> is \<^verbatim>\<open>target.id\<close>, a
  \<^verbatim>\<open>str\<close>, and goes to \<^verbatim>\<open>sym_diff\<close> and to \<^verbatim>\<open>sym_int\<close> as it is.
\<close>

definition visit_Assign ::
  "'sym engine \<Rightarrow> string set \<Rightarrow> string set \<Rightarrow> int set \<Rightarrow> expr list \<Rightarrow> expr \<Rightarrow> int \<Rightarrow> error + stmt" where
  "visit_Assign E diff_vars int_vars diff_lines targets val lineno =
     (case targets of
        [] \<Rightarrow> Inl IndexError
      | target # others \<Rightarrow>
          (case target of
             Name varname \<Rightarrow>
               (let do_diff = (varname \<in> diff_vars \<and> (\<not> diff_lines \<noteq> {} \<or> lineno \<in> diff_lines));
                    do_int = (varname \<in> int_vars \<and> (\<not> diff_lines \<noteq> {} \<or> lineno \<in> diff_lines))
                in
                bind_result
                  (if do_diff then
                     bind_result (sympify E (ast_unparse E val)) (\<lambda>expr.
                     bind_result (sym_diff E expr (Text varname)) (\<lambda>der.
                     parse_value E (str E der)))
                   else Inr val) (\<lambda>val1.
                bind_result
                  (if do_int then
                     bind_result (sympify E (ast_unparse E val1)) (\<lambda>expr.
                     bind_result (sym_int E expr (Text varname)) (\<lambda>ant.
                     parse_value E (str E ant)))
                   else Inr val1) (\<lambda>val2.
                Inr (Assign targets val2 lineno))))
           | _ \<Rightarrow> Inr (Assign targets val lineno)))"

text \<open>
  \<^verbatim>\<open>CalcTransformer\<close> has no method for another node kind. \<^verbatim>\<open>generic_visit\<close> walks
  the other statements, reaches the statements of their bodies, and stores what the
  visits return; no expression holds a statement, so the walk of an expression
  returns it as it is.
\<close>

fun CalcTransformer_visit ::
    "'sym engine \<Rightarrow> string set \<Rightarrow> string set \<Rightarrow> int set \<Rightarrow> stmt \<Rightarrow> error + stmt"
  and CalcTransformer_visit_list ::
    "'sym engine \<Rightarrow> string set \<Rightarrow> string set \<Rightarrow> int set \<Rightarrow> stmt list \<Rightarrow> error + stmt list"
where
  "CalcTransformer_visit E dv iv dl (Assign ts v n) = visit_Assign E dv iv dl ts v n"
| "CalcTransformer_visit E dv iv dl (AugAssign t op v) = Inr (AugAssign t op v)"
| "CalcTransformer_visit E dv iv dl (Expr v) = Inr (Expr v)"
| "CalcTransformer_visit E dv iv dl (IfStmt c ss els) =
     bind_result (CalcTransformer_visit_list E dv iv dl ss) (\<lambda>ss'.
     bind_result (CalcTransformer_visit_list E dv iv dl els) (\<lambda>els'. Inr (IfStmt c ss' els')))"
| "CalcTransformer_visit E dv iv dl (While c ss els) =
     bind_result (CalcTransformer_visit_list E dv iv dl ss) (\<lambda>ss'.
     bind_result (CalcTransformer_visit_list E dv iv dl els) (\<lambda>els'. Inr (While c ss' els')))"
| "CalcTransformer_visit E dv iv dl (For t it ss els) =
     bind_result (CalcTransformer_visit_list E dv iv dl ss) (\<lambda>ss'.
     bind_result (CalcTransformer_visit_list E dv iv dl els) (\<lambda>els'. Inr (For t it ss' els')))"
| "CalcTransformer_visit E dv iv dl (FunctionDef f ps ss) =
     bind_result (CalcTransformer_visit_list E dv iv dl ss) (\<lambda>ss'. Inr (FunctionDef f ps ss'))"
| "CalcTransformer_visit E dv iv dl Pass = Inr Pass"
| "CalcTransformer_visit_list E dv iv dl [] = Inr []"
| "CalcTransformer_visit_list E dv iv dl (s # ss) =
     bind_result (CalcTransformer_visit E dv iv dl s) (\<lambda>s'.
     bind_result (CalcTransformer_visit_list E dv iv dl ss) (\<lambda>ss'. Inr (s' # ss')))"

text \<open>Step 2 of \<^verbatim>\<open>process_file\<close>: the pass runs when one of the three sets is not empty.\<close>

definition calculus_pass ::
  "'sym engine \<Rightarrow> string set \<Rightarrow> string set \<Rightarrow> int set \<Rightarrow> module \<Rightarrow> error + module" where
  "calculus_pass E diff_vars int_vars diff_lines tree =
     (if diff_vars \<noteq> {} \<or> int_vars \<noteq> {} \<or> diff_lines \<noteq> {} then
        bind_result (CalcTransformer_visit_list E diff_vars int_vars diff_lines (body tree))
          (\<lambda>ss'. Inr (Module ss'))
      else Inr tree)"

subsection \<open>process_file\<close>

text \<open>
  What \<^verbatim>\<open>process_file\<close> does with the text of a file: the result is the one output
  action of step 4, or the error that ended the run before any output.
\<close>

datatype file_output =
    Overwrite string
  | ShowDiff string string
  | ShowRaw string

definition process_file ::
  "'sym engine \<Rightarrow> bool \<Rightarrow> bool \<Rightarrow> bool \<Rightarrow> string set \<Rightarrow> string set \<Rightarrow> int set \<Rightarrow> string
     \<Rightarrow> error + file_output" where
  "process_file E expand_polynomials inplace show_diff diff_vars int_vars diff_lines src =
     bind_result (ast_parse E src) (\<lambda>tree.
     bind_result (calculus_pass E diff_vars int_vars diff_lines tree) (\<lambda>tree1.
     let full_src = ast_unparse_module E tree1 in
     bind_result (MathExtractor_extract E MathExtractor_init full_src) (\<lambda>((tree2, ns), extractor).
     bind_result (optimize_tree E expand_polynomials tree2) (\<lambda>tree3.
     let optimized = ast_unparse_module E tree3 in
     Inr (if inplace then Overwrite optimized
          else if show_diff then ShowDiff full_src optimized
          else ShowRaw optimized)))))"

section \<open>The nodes of a tree\<close>

text \<open>
  The words of the specification about trees: the expression nodes of a tree in the
  order of a walk that meets a node before the nodes below it, and the fields of a
  node from left to right; and the binary-operation nodes among them.
\<close>

fun expr_nodes :: "expr \<Rightarrow> expr list" where
  "expr_nodes (Constant c) = [Constant c]"
| "expr_nodes (Name n) = [Name n]"
| "expr_nodes (BinOp l op r) = BinOp l op r # expr_nodes l @ expr_nodes r"
| "expr_nodes (UnaryOp op e) = UnaryOp op e # expr_nodes e"
| "expr_nodes (BoolOp op es) = BoolOp op es # concat (map expr_nodes es)"
| "expr_nodes (Compare l ops es) = Compare l ops es # expr_nodes l @ concat (map expr_nodes es)"
| "expr_nodes (Call f args) = Call f args # expr_nodes f @ concat (map expr_nodes args)"
| "expr_nodes (Attribute e a) = Attribute e a # expr_nodes e"
| "expr_nodes (Subscript e i) = Subscript e i # expr_nodes e @ expr_nodes i"
| "expr_nodes (Tuple es) = Tuple es # concat (map expr_nodes es)"

fun stmt_nodes :: "stmt \<Rightarrow> expr list" where
  "stmt_nodes (Assign ts v n) = concat (map expr_nodes ts) @ expr_nodes v"
| "stmt_nodes (AugAssign t op v) = expr_nodes t @ expr_nodes v"
| "stmt_nodes (Expr v) = expr_nodes v"
| "stmt_nodes (IfStmt c ss els) =
     expr_nodes c @ concat (map stmt_nodes ss) @ concat (map stmt_nodes els)"
| "stmt_nodes (While c ss els) =
     expr_nodes c @ concat (map stmt_nodes ss) @ concat (map stmt_nodes els)"
| "stmt_nodes (For t it ss els) =
     expr_nodes t @ expr_nodes it @ concat (map stmt_nodes ss) @ concat (map stmt_nodes els)"
| "stmt_nodes (FunctionDef f ps ss) = concat (map stmt_nodes ss)"
| "stmt_nodes Pass = []"

definition module_nodes :: "module \<Rightarrow> expr list" where
  "module_nodes tree = concat (map stmt_nodes (body tree))"

fun is_BinOp :: "expr \<Rightarrow> bool" where
  "is_BinOp (BinOp l op r) = True"
| "is_BinOp e = False"

definition binop_nodes :: "module \<Rightarrow> expr list" where
  "binop_nodes tree = filter is_BinOp (module_nodes tree)"

section \<open>Line specifications\<close>

text \<open>
  The words of the specification about \<^verbatim>\<open>--diff-lines\<close>: a line specification is a
  list of items, each a line number or an inclusive range of line numbers, written
  in decimal and joined by commas. \<open>spec_lines\<close> is the set it stands for.
\<close>

datatype spec_item = Single nat | Range nat nat

fun dec :: "nat \<Rightarrow> string" where
  "dec n = (if n < 10 then [''0123456789'' ! n] else dec (n div 10) @ [''0123456789'' ! (n mod 10)])"

declare dec.simps [simp del]

fun item_text :: "spec_item \<Rightarrow> string" where
  "item_text (Single n) = dec n"
| "item_text (Range a b) = dec a @ ''-'' @ dec b"

fun spec_text :: "spec_item list \<Rightarrow> string" where
  "spec_text [] = []"
| "spec_text [i] = item_text i"
| "spec_text (i # j # js) = item_text i @ '','' @ spec_text (j # js)"

fun item_lines :: "spec_item \<Rightarrow> int set" where
  "item_lines (Single n) = {int n}"
| "item_lines (Range a b) = {int a..int b}"

definition spec_lines :: "spec_item list \<Rightarrow> int set" where
  "spec_lines items = \<Union> (set (map item_lines items))"

section \<open>A small engine for closed examples\<close>

text \<open>
  An instance of the two libraries, to run the program on the examples of its test
  suite: a printer of expressions that puts an operand in parentheses when it is a
  binary operation, and tables for the texts the examples meet. The symbolic
  expressions of this engine are texts. It differentiates with respect to a name
  given as text or as a symbol, and integrates with respect to a symbol only, as
  SymPy does.
\<close>

fun operator_text :: "operator \<Rightarrow> string" where
  "operator_text Add = ''+''"
| "operator_text Sub = ''-''"
| "operator_text Mult = ''*''"
| "operator_text Div = ''/''"
| "operator_text FloorDiv = ''//''"
| "operator_text Mod = ''%''"
| "operator_text PowOp = ''**''"
| "operator_text MatMult = ''@''"

fun demo_unparse :: "expr \<Rightarrow> string" where
  "demo_unparse (Constant (IntC n)) = (if 0 \<le> n then dec (nat n) else CHR ''-'' # dec (nat (- n)))"
| "demo_unparse (Constant (StrC t)) = CHR 0x27 # t @ [CHR 0x27]"
| "demo_unparse (Constant (BoolC b)) = (if b then ''True'' else ''False'')"
| "demo_unparse (Constant NoneC) = ''None''"
| "demo_unparse (Name n) = n"
| "demo_unparse (BinOp l op r) =
     (if is_BinOp l then ''('' @ demo_unparse l @ '')'' else demo_unparse l)
     @ '' '' @ operator_text op @ '' '' @
     (if is_BinOp r then ''('' @ demo_unparse r @ '')'' else demo_unparse r)"
| "demo_unparse (Subscript e i) = demo_unparse e @ ''['' @ demo_unparse i @ '']''"
| "demo_unparse (Call f args) = demo_unparse f @ ''('' @ concat (map demo_unparse args) @ '')''"
| "demo_unparse e = ''?''"

fun demo_unparse_stmt :: "stmt \<Rightarrow> string" where
  "demo_unparse_stmt (Assign ts v n) = concat (map (\<lambda>t. demo_unparse t @ '' = '') ts) @ demo_unparse v"
| "demo_unparse_stmt (Expr v) = demo_unparse v"
| "demo_unparse_stmt s = ''...''"

definition demo_unparse_module :: "module \<Rightarrow> string" where
  "demo_unparse_module tree = concat (map (\<lambda>s. demo_unparse_stmt s @ [CHR 0x0A]) (body tree))"

definition x_plus_2 :: expr where
  "x_plus_2 = BinOp (Name ''x'') Add (Constant (IntC 2))"

definition demo_parse_table :: "(string \<times> module) list" where
  "demo_parse_table =
     [(''5'', Module [Expr (Constant (IntC 5))]),
      (''20'', Module [Expr (Constant (IntC 20))]),
      (''x + 2'', Module [Expr x_plus_2]),
      (''(x + 2)**2'', Module [Expr (BinOp x_plus_2 PowOp (Constant (IntC 2)))]),
      (''x**2 + 4*x + 4'', Module [Expr
         (BinOp (BinOp (BinOp (Name ''x'') PowOp (Constant (IntC 2))) Add
                       (BinOp (Constant (IntC 4)) Mult (Name ''x''))) Add (Constant (IntC 4)))]),
      (''3*y**2'', Module [Expr
         (BinOp (Constant (IntC 3)) Mult (BinOp (Name ''y'') PowOp (Constant (IntC 2))))]),
      (''y**3'', Module [Expr (BinOp (Name ''y'') PowOp (Constant (IntC 3)))]),
      (''y**4/4'', Module [Expr
         (BinOp (BinOp (Name ''y'') PowOp (Constant (IntC 4))) Div (Constant (IntC 4)))]),
      (''y = y ** 3'' @ [CHR 0x0A], Module [Assign [Name ''y'']
         (BinOp (Name ''y'') PowOp (Constant (IntC 3))) 1]),
      (''z = a[0] + 1'' @ [CHR 0x0A], Module [Assign [Name ''z'']
         (BinOp (Subscript (Name ''a'') (Constant (IntC 0))) Add (Constant (IntC 1))) 1]),
      (''y = 4 * (2 + 3)'' @ [CHR 0x0A], Module [Assign [Name ''y'']
         (BinOp (Constant (IntC 4)) Mult
                (BinOp (Constant (IntC 2)) Add (Constant (IntC 3)))) 1])]"

definition demo_parse :: "string \<Rightarrow> error + module" where
  "demo_parse text = (case map_of demo_parse_table text of None \<Rightarrow> Inl SyntaxError | Some m \<Rightarrow> Inr m)"

definition demo_sympify :: "string \<Rightarrow> error + string" where
  "demo_sympify text =
     (if text \<in> set [''2 + 3'', ''4 * 5'', ''x + 2'', ''(x + 2) * (x + 2)'', ''y ** 3'',
                      ''3 * (y ** 2)'']
      then Inr text else Inl SympifyError)"

definition demo_simplify :: "string \<Rightarrow> error + string" where
  "demo_simplify s =
     Inr (case map_of [(''2 + 3'', ''5''), (''4 * 5'', ''20''),
                       (''(x + 2) * (x + 2)'', ''(x + 2)**2'')] s of
            None \<Rightarrow> s | Some t \<Rightarrow> t)"

definition demo_expand :: "string \<Rightarrow> error + string" where
  "demo_expand s =
     Inr (case map_of [(''(x + 2)**2'', ''x**2 + 4*x + 4'')] s of None \<Rightarrow> s | Some t \<Rightarrow> t)"

fun var_name :: "sym_var \<Rightarrow> string" where
  "var_name (Text v) = v"
| "var_name (Symbol v) = v"

definition demo_diff :: "string \<Rightarrow> sym_var \<Rightarrow> error + string" where
  "demo_diff s x =
     (case map_of [((''y ** 3'', ''y''), ''3*y**2'')] (s, var_name x) of
        None \<Rightarrow> Inl (LibraryError ''diff'') | Some t \<Rightarrow> Inr t)"

fun demo_int :: "string \<Rightarrow> sym_var \<Rightarrow> error + string" where
  "demo_int s (Text v) = Inl ValueError"
| "demo_int s (Symbol v) =
     (case map_of [((''3 * (y ** 2)'', ''y''), ''y**3''), ((''y ** 3'', ''y''), ''y**4/4'')] (s, v) of
        None \<Rightarrow> Inl (LibraryError ''integrate'') | Some t \<Rightarrow> Inr t)"

definition demo_engine :: "string engine" where
  "demo_engine =
     \<lparr>ast_parse = demo_parse, ast_unparse = demo_unparse, ast_unparse_module = demo_unparse_module,
      sympify = demo_sympify, simplify = demo_simplify, factor = Inr, expand = demo_expand,
      sym_diff = demo_diff, sym_int = demo_int, str = (\<lambda>s. s)\<rparr>"

section \<open>The optimization pipeline, as the specification words it\<close>

text \<open>
  \<open>bottom_up E expand_enabled e e'\<close>: the expression \<open>e'\<close> is \<open>e\<close> rewritten bottom-up.
  A binary operation whose operands are rewritten to \<open>l'\<close> and \<open>r'\<close> is rendered with
  these operands, the text is parsed into a symbolic expression, which is simplified,
  then factored, then expanded when the option is on; the text of the outcome, parsed
  back, stands where the binary operation stood. Every other node keeps its kind and
  has its operands rewritten.
\<close>

inductive bottom_up :: "'sym engine \<Rightarrow> bool \<Rightarrow> expr \<Rightarrow> expr \<Rightarrow> bool"
  for E :: "'sym engine" and expand_enabled :: bool
where
  rw_Constant: "bottom_up E expand_enabled (Constant c) (Constant c)"
| rw_Name: "bottom_up E expand_enabled (Name n) (Name n)"
| rw_BinOp:
    "bottom_up E expand_enabled l l' \<Longrightarrow> bottom_up E expand_enabled r r' \<Longrightarrow>
     sympify E (ast_unparse E (BinOp l' op r')) = Inr parsed \<Longrightarrow>
     simplify E parsed = Inr simplified \<Longrightarrow>
     factor E simplified = Inr factored \<Longrightarrow>
     (if expand_enabled then expand E factored else Inr factored) = Inr final \<Longrightarrow>
     parse_value E (str E final) = Inr new \<Longrightarrow>
     bottom_up E expand_enabled (BinOp l op r) new"
| rw_UnaryOp:
    "bottom_up E expand_enabled e e' \<Longrightarrow> bottom_up E expand_enabled (UnaryOp op e) (UnaryOp op e')"
| rw_BoolOp:
    "list_all2 (bottom_up E expand_enabled) es es' \<Longrightarrow>
     bottom_up E expand_enabled (BoolOp op es) (BoolOp op es')"
| rw_Compare:
    "bottom_up E expand_enabled l l' \<Longrightarrow> list_all2 (bottom_up E expand_enabled) es es' \<Longrightarrow>
     bottom_up E expand_enabled (Compare l ops es) (Compare l' ops es')"
| rw_Call:
    "bottom_up E expand_enabled f f' \<Longrightarrow> list_all2 (bottom_up E expand_enabled) args args' \<Longrightarrow>
     bottom_up E expand_enabled (Call f args) (Call f' args')"
| rw_Attribute:
    "bottom_up E expand_enabled e e' \<Longrightarrow> bottom_up E expand_enabled (Attribute e a) (Attribute e' a)"
| rw_Subscript:
    "bottom_up E expand_enabled e e' \<Longrightarrow> bottom_up E expand_enabled i i' \<Longrightarrow>
     bottom_up E expand_enabled (Subscript e i) (Subscript e' i')"
| rw_Tuple:
    "list_all2 (bottom_up E expand_enabled) es es' \<Longrightarrow>
     bottom_up E expand_enabled (Tuple es) (Tuple es')"

text \<open>The same for statements and modules: the expressions of a statement are rewritten,
  the statement keeps its kind, its targets' places, its line and its nesting.\<close>

inductive bottom_up_stmt :: "'sym engine \<Rightarrow> bool \<Rightarrow> stmt \<Rightarrow> stmt \<Rightarrow> bool"
  for E :: "'sym engine" and expand_enabled :: bool
where
  rw_Assign:
    "list_all2 (bottom_up E expand_enabled) ts ts' \<Longrightarrow> bottom_up E expand_enabled v v' \<Longrightarrow>
     bottom_up_stmt E expand_enabled (Assign ts v n) (Assign ts' v' n)"
| rw_AugAssign:
    "bottom_up E expand_enabled t t' \<Longrightarrow> bottom_up E expand_enabled v v' \<Longrightarrow>
     bottom_up_stmt E expand_enabled (AugAssign t op v) (AugAssign t' op v')"
| rw_Expr:
    "bottom_up E expand_enabled v v' \<Longrightarrow> bottom_up_stmt E expand_enabled (Expr v) (Expr v')"
| rw_IfStmt:
    "bottom_up E expand_enabled c c' \<Longrightarrow>
     list_all2 (bottom_up_stmt E expand_enabled) ss ss' \<Longrightarrow>
     list_all2 (bottom_up_stmt E expand_enabled) els els' \<Longrightarrow>
     bottom_up_stmt E expand_enabled (IfStmt c ss els) (IfStmt c' ss' els')"
| rw_While:
    "bottom_up E expand_enabled c c' \<Longrightarrow>
     list_all2 (bottom_up_stmt E expand_enabled) ss ss' \<Longrightarrow>
     list_all2 (bottom_up_stmt E expand_enabled) els els' \<Longrightarrow>
     bottom_up_stmt E expand_enabled (While c ss els) (While c' ss' els')"
| rw_For:
    "bottom_up E expand_enabled t t' \<Longrightarrow> bottom_up E expand_enabled it it' \<Longrightarrow>
     list_all2 (bottom_up_stmt E expand_enabled) ss ss' \<Longrightarrow>
     list_all2 (bottom_up_stmt E expand_enabled) els els' \<Longrightarrow>
     bottom_up_stmt E expand_enabled (For t it ss els) (For t' it' ss' els')"
| rw_FunctionDef:
    "list_all2 (bottom_up_stmt E expand_enabled) ss ss' \<Longrightarrow>
     bottom_up_stmt E expand_enabled (FunctionDef f ps ss) (FunctionDef f ps ss')"
| rw_Pass: "bottom_up_stmt E expand_enabled Pass Pass"

definition bottom_up_module :: "'sym engine \<Rightarrow> bool \<Rightarrow> module \<Rightarrow> module \<Rightarrow> bool" where
  "bottom_up_module E expand_enabled tree tree' =
     list_all2 (bottom_up_stmt E expand_enabled) (body tree) (body tree')"

section \<open>The calculus transform, as the specification words it\<close>

text \<open>
  The replacement of a value by its derivative, and by its antiderivative, with
  respect to a variable: the value is rendered to text, the text is parsed into a
  symbolic expression, which is differentiated (integrated), and the text of the
  outcome is parsed back into an expression node. The specification speaks of the
  derivative and the antiderivative with respect to the symbol named \<open>v\<close>, which is
  the variable \<open>Symbol v\<close>; the program hands over the name, which is \<open>Text v\<close>.
\<close>

definition derivative_of :: "'sym engine \<Rightarrow> sym_var \<Rightarrow> expr \<Rightarrow> error + expr" where
  "derivative_of E x e =
     bind_result (sympify E (ast_unparse E e)) (\<lambda>parsed.
     bind_result (sym_diff E parsed x) (\<lambda>derivative.
     parse_value E (str E derivative)))"

definition antiderivative_of :: "'sym engine \<Rightarrow> sym_var \<Rightarrow> expr \<Rightarrow> error + expr" where
  "antiderivative_of E x e =
     bind_result (sympify E (ast_unparse E e)) (\<lambda>parsed.
     bind_result (sym_int E parsed x) (\<lambda>antiderivative.
     parse_value E (str E antiderivative)))"

text \<open>
  The value that an assignment to the name \<open>v\<close> on line \<open>n\<close> ends with: the derivative
  stands for the value when \<open>v\<close> is selected for differentiation and the line filter is
  empty or holds \<open>n\<close>; then, under the same condition on the filter, the
  antiderivative of the current value stands for it when \<open>v\<close> is selected for
  integration.
\<close>

definition replaced_value ::
  "'sym engine \<Rightarrow> string set \<Rightarrow> string set \<Rightarrow> int set \<Rightarrow> string \<Rightarrow> int \<Rightarrow> expr \<Rightarrow> error + expr" where
  "replaced_value E diff_vars int_vars line_filter v n val =
     bind_result
       (if v \<in> diff_vars \<and> (line_filter = {} \<or> n \<in> line_filter)
        then derivative_of E (Text v) val else Inr val)
       (\<lambda>current.
          if v \<in> int_vars \<and> (line_filter = {} \<or> n \<in> line_filter)
          then antiderivative_of E (Text v) current else Inr current)"

fun is_Name :: "expr \<Rightarrow> bool" where
  "is_Name (Name v) = True"
| "is_Name e = False"

text \<open>
  \<open>calculus_rewrites E diff_vars int_vars line_filter s s'\<close>: the statement \<open>s'\<close> is
  what the transform makes of \<open>s\<close>. An assignment whose target is a single plain name
  has its value replaced, at the top of the module and inside the bodies of compound
  statements alike. An assignment whose first target is not a plain name, and every
  statement that is not an assignment, stays as it is; a compound statement has the
  statements of its bodies transformed. The relation says nothing of an assignment
  with several targets the first of which is a plain name (any outcome is related to
  it), nor of an assignment without a target, which is not a statement of Python.
\<close>

inductive calculus_rewrites ::
  "'sym engine \<Rightarrow> string set \<Rightarrow> string set \<Rightarrow> int set \<Rightarrow> stmt \<Rightarrow> stmt \<Rightarrow> bool"
  for E :: "'sym engine" and diff_vars :: "string set" and int_vars :: "string set"
    and line_filter :: "int set"
where
  cr_single_name:
    "replaced_value E diff_vars int_vars line_filter v n val = Inr val' \<Longrightarrow>
     calculus_rewrites E diff_vars int_vars line_filter (Assign [Name v] val n) (Assign [Name v] val' n)"
| cr_other_target:
    "\<not> is_Name t \<Longrightarrow>
     calculus_rewrites E diff_vars int_vars line_filter
       (Assign (t # others) val n) (Assign (t # others) val n)"
| cr_several_targets:
    "calculus_rewrites E diff_vars int_vars line_filter (Assign (Name v # t # others) val n) s'"
| cr_no_target:
    "calculus_rewrites E diff_vars int_vars line_filter (Assign [] val n) s'"
| cr_AugAssign:
    "calculus_rewrites E diff_vars int_vars line_filter (AugAssign t op v) (AugAssign t op v)"
| cr_Expr:
    "calculus_rewrites E diff_vars int_vars line_filter (Expr v) (Expr v)"
| cr_IfStmt:
    "list_all2 (calculus_rewrites E diff_vars int_vars line_filter) ss ss' \<Longrightarrow>
     list_all2 (calculus_rewrites E diff_vars int_vars line_filter) els els' \<Longrightarrow>
     calculus_rewrites E diff_vars int_vars line_filter (IfStmt c ss els) (IfStmt c ss' els')"
| cr_While:
    "list_all2 (calculus_rewrites E diff_vars int_vars line_filter) ss ss' \<Longrightarrow>
     list_all2 (calculus_rewrites E diff_vars int_vars line_filter) els els' \<Longrightarrow>
     calculus_rewrites E diff_vars int_vars line_filter (While c ss els) (While c ss' els')"
| cr_For:
    "list_all2 (calculus_rewrites E diff_vars int_vars line_filter) ss ss' \<Longrightarrow>
     list_all2 (calculus_rewrites E diff_vars int_vars line_filter) els els' \<Longrightarrow>
     calculus_rewrites E diff_vars int_vars line_filter (For t it ss els) (For t it ss' els')"
| cr_FunctionDef:
    "list_all2 (calculus_rewrites E diff_vars int_vars line_filter) ss ss' \<Longrightarrow>
     calculus_rewrites E diff_vars int_vars line_filter (FunctionDef f ps ss) (FunctionDef f ps ss')"
| cr_Pass: "calculus_rewrites E diff_vars int_vars line_filter Pass Pass"



text \<open>The statements of a tree at every depth, a statement before those of its bodies.\<close>

fun stmts_of :: "stmt \<Rightarrow> stmt list" where
  "stmts_of (IfStmt c ss els) =
     IfStmt c ss els # concat (map stmts_of ss) @ concat (map stmts_of els)"
| "stmts_of (While c ss els) =
     While c ss els # concat (map stmts_of ss) @ concat (map stmts_of els)"
| "stmts_of (For t it ss els) =
     For t it ss els # concat (map stmts_of ss) @ concat (map stmts_of els)"
| "stmts_of (FunctionDef f ps ss) = FunctionDef f ps ss # concat (map stmts_of ss)"
| "stmts_of s = [s]"

definition module_stmts :: "module \<Rightarrow> stmt list" where
  "module_stmts tree = concat (map stmts_of (body tree))"

section \<open>Equality under the equivalence of the engine\<close>

text \<open>
  The symbolic value of an expression node is what SymPy reads from its rendering.
  Two expressions are equal under the engine's equivalence when their symbolic values
  are equivalent, or when they are nodes of one kind whose operands are equal under
  the engine's equivalence; statements and modules are, when they have one shape and
  their expressions are.
\<close>

definition symbolic_value :: "'sym engine \<Rightarrow> expr \<Rightarrow> error + 'sym" where
  "symbolic_value E e = sympify E (ast_unparse E e)"

inductive equivalent :: "'sym engine \<Rightarrow> ('sym \<Rightarrow> 'sym \<Rightarrow> bool) \<Rightarrow> expr \<Rightarrow> expr \<Rightarrow> bool"
  for E :: "'sym engine" and eqv :: "'sym \<Rightarrow> 'sym \<Rightarrow> bool"
where
  eq_value:
    "symbolic_value E e = Inr s \<Longrightarrow> symbolic_value E e' = Inr s' \<Longrightarrow> eqv s s' \<Longrightarrow>
     equivalent E eqv e e'"
| eq_Constant: "equivalent E eqv (Constant c) (Constant c)"
| eq_Name: "equivalent E eqv (Name n) (Name n)"
| eq_BinOp:
    "equivalent E eqv l l' \<Longrightarrow> equivalent E eqv r r' \<Longrightarrow>
     equivalent E eqv (BinOp l op r) (BinOp l' op r')"
| eq_UnaryOp:
    "equivalent E eqv e e' \<Longrightarrow> equivalent E eqv (UnaryOp op e) (UnaryOp op e')"
| eq_BoolOp:
    "list_all2 (equivalent E eqv) es es' \<Longrightarrow> equivalent E eqv (BoolOp op es) (BoolOp op es')"
| eq_Compare:
    "equivalent E eqv l l' \<Longrightarrow> list_all2 (equivalent E eqv) es es' \<Longrightarrow>
     equivalent E eqv (Compare l ops es) (Compare l' ops es')"
| eq_Call:
    "equivalent E eqv f f' \<Longrightarrow> list_all2 (equivalent E eqv) args args' \<Longrightarrow>
     equivalent E eqv (Call f args) (Call f' args')"
| eq_Attribute:
    "equivalent E eqv e e' \<Longrightarrow> equivalent E eqv (Attribute e a) (Attribute e' a)"
| eq_Subscript:
    "equivalent E eqv e e' \<Longrightarrow> equivalent E eqv i i' \<Longrightarrow>
     equivalent E eqv (Subscript e i) (Subscript e' i')"
| eq_Tuple:
    "list_all2 (equivalent E eqv) es es' \<Longrightarrow> equivalent E eqv (Tuple es) (Tuple es')"

inductive equivalent_stmt :: "'sym engine \<Rightarrow> ('sym \<Rightarrow> 'sym \<Rightarrow> bool) \<Rightarrow> stmt \<Rightarrow> stmt \<Rightarrow> bool"
  for E :: "'sym engine" and eqv :: "'sym \<Rightarrow> 'sym \<Rightarrow> bool"
where
  eq_Assign:
    "list_all2 (equivalent E eqv) ts ts' \<Longrightarrow> equivalent E eqv v v' \<Longrightarrow>
     equivalent_stmt E eqv (Assign ts v n) (Assign ts' v' n)"
| eq_AugAssign:
    "equivalent E eqv t t' \<Longrightarrow> equivalent E eqv v v' \<Longrightarrow>
     equivalent_stmt E eqv (AugAssign t op v) (AugAssign t' op v')"
| eq_Expr:
    "equivalent E eqv v v' \<Longrightarrow> equivalent_stmt E eqv (Expr v) (Expr v')"
| eq_IfStmt:
    "equivalent E eqv c c' \<Longrightarrow> list_all2 (equivalent_stmt E eqv) ss ss' \<Longrightarrow>
     list_all2 (equivalent_stmt E eqv) els els' \<Longrightarrow>
     equivalent_stmt E eqv (IfStmt c ss els) (IfStmt c' ss' els')"
| eq_While:
    "equivalent E eqv c c' \<Longrightarrow> list_all2 (equivalent_stmt E eqv) ss ss' \<Longrightarrow>
     list_all2 (equivalent_stmt E eqv) els els' \<Longrightarrow>
     equivalent_stmt E eqv (While c ss els) (While c' ss' els')"
| eq_For:
    "equivalent E eqv t t' \<Longrightarrow> equivalent E eqv it it' \<Longrightarrow>
     list_all2 (equivalent_stmt E eqv) ss ss' \<Longrightarrow>
     list_all2 (equivalent_stmt E eqv) els els' \<Longrightarrow>
     equivalent_stmt E eqv (For t it ss els) (For t' it' ss' els')"
| eq_FunctionDef:
    "list_all2 (equivalent_stmt E eqv) ss ss' \<Longrightarrow>
     equivalent_stmt E eqv (FunctionDef f ps ss) (FunctionDef f ps ss')"
| eq_Pass: "equivalent_stmt E eqv Pass Pass"

definition equivalent_module ::
  "'sym engine \<Rightarrow> ('sym \<Rightarrow> 'sym \<Rightarrow> bool) \<Rightarrow> module \<Rightarrow> module \<Rightarrow> bool" where
  "equivalent_module E eqv tree tree' =
     list_all2 (equivalent_stmt E eqv) (body tree) (body tree')"

text \<open>
  Modelled from the spec: the code of the Symbolic Engine (SymPy) and of the Syntax
  Bridge (\<^verbatim>\<open>ast\<close>) is not part of the program, and neither is the engine's
  equivalence, the parameter \<open>eqv\<close>. What the specification says of them, as laws:
  the equivalence is an equivalence relation; the transforms are
  equivalence-preserving and yield a new value (a parse failure is the only error
  channel); the text of a symbolic expression, read back by the bridge, is an
  expression node with an equivalent value (the rewrite is value-preserving, though
  syntax and grouping may differ). The last two laws spell out that a symbolic
  expression is an algebraic value independent of its surface form (expressions that
  are equal operand by operand have equivalent values), and that a text the engine
  cannot parse is one that holds a form outside arithmetic (the binary operations
  inside an expression that the engine reads are read by it too).
\<close>

definition engine_laws :: "'sym engine \<Rightarrow> ('sym \<Rightarrow> 'sym \<Rightarrow> bool) \<Rightarrow> bool" where
  "engine_laws E eqv \<longleftrightarrow>
     equivp eqv
     \<and> (\<forall>s. \<exists>t. simplify E s = Inr t \<and> eqv s t)
     \<and> (\<forall>s. \<exists>t. factor E s = Inr t \<and> eqv s t)
     \<and> (\<forall>s. \<exists>t. expand E s = Inr t \<and> eqv s t)
     \<and> (\<forall>s. \<exists>e t. parse_value E (str E s) = Inr e \<and> symbolic_value E e = Inr t \<and> eqv s t)
     \<and> (\<forall>e e' s. equivalent E eqv e e' \<longrightarrow> symbolic_value E e = Inr s \<longrightarrow>
           (\<exists>s'. symbolic_value E e' = Inr s' \<and> eqv s s'))
     \<and> (\<forall>e s n. symbolic_value E e = Inr s \<longrightarrow> n \<in> set (expr_nodes e) \<longrightarrow> is_BinOp n \<longrightarrow>
           (\<exists>t. symbolic_value E n = Inr t))"

text \<open>The binary-operation nodes of a list of nodes all have a symbolic value.\<close>

definition binops_readable :: "'sym engine \<Rightarrow> expr list \<Rightarrow> bool" where
  "binops_readable E ns = (\<forall>n \<in> set ns. is_BinOp n \<longrightarrow> (\<exists>t. symbolic_value E n = Inr t))"

text \<open>
  An engine for a closed example of these laws: linear polynomials \<open>a * x + b\<close> in the
  one variable \<open>x\<close>, with natural numbers \<open>a\<close> and \<open>b\<close>. Its symbolic expressions are
  the pairs \<open>(a, b)\<close>, and its equivalence is equality. Its printer of expression
  nodes writes natural numbers, the name \<open>x\<close>, and sums and products in parentheses,
  and a question mark for every other node; its reader takes such a text back to the
  expression node, with a stack of the operands, operators and parentheses it has met.
  Sums, and products with a constant factor, have a value.
\<close>

fun linear_unparse :: "expr \<Rightarrow> string" where
  "linear_unparse (Constant (IntC n)) = (if 0 \<le> n then dec (nat n) else ''?'')"
| "linear_unparse (Name v) = (if v = ''x'' then ''x'' else ''?'')"
| "linear_unparse (BinOp l op r) =
     (if op = Add \<or> op = Mult
      then ''('' @ linear_unparse l @ '' '' @ operator_text op @ '' '' @ linear_unparse r @ '')''
      else ''?'')"
| "linear_unparse e = ''?''"

datatype read_item = Open | Op operator | Val expr

fun close_paren :: "read_item list \<Rightarrow> read_item list option" where
  "close_paren (Val r # Op op # Val l # Open # st) = Some (Val (BinOp l op r) # st)"
| "close_paren st = None"

fun push_digit :: "nat \<Rightarrow> read_item list \<Rightarrow> read_item list" where
  "push_digit d (Val (Constant (IntC n)) # st) = Val (Constant (IntC (10 * n + int d))) # st"
| "push_digit d st = Val (Constant (IntC (int d))) # st"

text \<open>A stack awaits an operand when no operand lies on its top.\<close>

fun awaits_operand :: "read_item list \<Rightarrow> bool" where
  "awaits_operand (Val e # st) = False"
| "awaits_operand st = True"

fun linear_read :: "string \<Rightarrow> read_item list \<Rightarrow> expr option" where
  "linear_read [] st = (case st of [Val e] \<Rightarrow> Some e | _ \<Rightarrow> None)"
| "linear_read (c # cs) st =
     (if c = CHR ''('' then linear_read cs (Open # st)
      else if c = CHR '')'' then
        (case close_paren st of None \<Rightarrow> None | Some st' \<Rightarrow> linear_read cs st')
      else if c = CHR '' '' then linear_read cs st
      else if c = CHR ''+'' then linear_read cs (Op Add # st)
      else if c = CHR ''*'' then linear_read cs (Op Mult # st)
      else if c = CHR ''x'' then linear_read cs (Val (Name ''x'') # st)
      else if is_digit c then linear_read cs (push_digit (digit_val c) st)
      else None)"

fun linear_value :: "expr \<Rightarrow> (nat \<times> nat) option" where
  "linear_value (Constant (IntC n)) = (if 0 \<le> n then Some (0, nat n) else None)"
| "linear_value (Name v) = (if v = ''x'' then Some (1, 0) else None)"
| "linear_value (BinOp l op r) =
     (case linear_value l of
        None \<Rightarrow> None
      | Some (a, b) \<Rightarrow>
          (case linear_value r of
             None \<Rightarrow> None
           | Some (c, d) \<Rightarrow>
               if op = Add then Some (a + c, b + d)
               else if op = Mult then
                 (if a = 0 then Some (b * c, b * d)
                  else if c = 0 then Some (a * d, b * d)
                  else None)
               else None))"
| "linear_value e = None"

text \<open>The expression nodes that the printer writes without a question mark.\<close>

fun linear_syntax :: "expr \<Rightarrow> bool" where
  "linear_syntax (Constant (IntC n)) = (0 \<le> n)"
| "linear_syntax (Name v) = (v = ''x'')"
| "linear_syntax (BinOp l op r) = ((op = Add \<or> op = Mult) \<and> linear_syntax l \<and> linear_syntax r)"
| "linear_syntax e = False"

text \<open>The expression node of a linear polynomial: \<open>b\<close>, \<open>x\<close>, \<open>a * x\<close>, \<open>x + b\<close> or
  \<open>a * x + b\<close>.\<close>

definition linear_term :: "nat \<Rightarrow> expr" where
  "linear_term a =
     (if a = 1 then Name ''x'' else BinOp (Constant (IntC (int a))) Mult (Name ''x''))"

definition linear_form :: "nat \<times> nat \<Rightarrow> expr" where
  "linear_form s =
     (if fst s = 0 then Constant (IntC (int (snd s)))
      else if snd s = 0 then linear_term (fst s)
      else BinOp (linear_term (fst s)) Add (Constant (IntC (int (snd s)))))"

definition linear_parse :: "string \<Rightarrow> error + module" where
  "linear_parse text =
     (case linear_read text [] of None \<Rightarrow> Inl SyntaxError | Some e \<Rightarrow> Inr (Module [Expr e]))"

definition linear_sympify :: "string \<Rightarrow> error + nat \<times> nat" where
  "linear_sympify text =
     (case linear_read text [] of
        None \<Rightarrow> Inl SympifyError
      | Some e \<Rightarrow> (case linear_value e of None \<Rightarrow> Inl SympifyError | Some s \<Rightarrow> Inr s))"

definition linear_engine :: "(nat \<times> nat) engine" where
  "linear_engine =
     \<lparr>ast_parse = linear_parse, ast_unparse = linear_unparse,
      ast_unparse_module = (\<lambda>m. concat (map (\<lambda>s. ''...'' @ [CHR 0x0A]) (body m))),
      sympify = linear_sympify, simplify = Inr, factor = Inr, expand = Inr,
      sym_diff = (\<lambda>s v. Inr (0, if var_name v = ''x'' then fst s else 0)),
      sym_int = (\<lambda>s v. Inl ValueError),
      str = (\<lambda>s. linear_unparse (linear_form s))\<rparr>"

section \<open>Properties of the optimization pipeline\<close>

lemma bind_result_eq_Inr:
  "bind_result m f = Inr y \<longleftrightarrow> (\<exists>v. m = Inr v \<and> f v = Inr y)"
  by (cases m) (simp_all add: bind_result_def)

lemma optimize_node_eq_Inr:
  "optimize_node E x node = Inr new \<longleftrightarrow>
     (\<exists>parsed simplified factored final.
        sympify E (ast_unparse E node) = Inr parsed \<and>
        simplify E parsed = Inr simplified \<and>
        factor E simplified = Inr factored \<and>
        (if x then expand E factored else Inr factored) = Inr final \<and>
        parse_value E (str E final) = Inr new)"
  by (simp add: optimize_node_def bind_result_eq_Inr)

lemma visit_bottom_up:
  "\<And>e'. Transformer_visit E x e = Inr e' \<Longrightarrow> bottom_up E x e e'"
  "\<And>es'. Transformer_visit_list E x es = Inr es' \<Longrightarrow> list_all2 (bottom_up E x) es es'"
proof (induction E x e and E x es rule: Transformer_visit_Transformer_visit_list.induct)
  case (1 E x l op r)
  from "1.prems" obtain l' r' where l: "Transformer_visit E x l = Inr l'"
    and r: "Transformer_visit E x r = Inr r'"
    and n: "optimize_node E x (BinOp l' op r') = Inr e'"
    by (auto simp: bind_result_eq_Inr)
  from n obtain parsed simplified factored final where
    "sympify E (ast_unparse E (BinOp l' op r')) = Inr parsed"
    "simplify E parsed = Inr simplified"
    "factor E simplified = Inr factored"
    "(if x then expand E factored else Inr factored) = Inr final"
    "parse_value E (str E final) = Inr e'"
    unfolding optimize_node_eq_Inr by blast
  with "1.IH"(1)[OF l] "1.IH"(2)[OF l r] show ?case
    by (rule rw_BinOp)
qed (auto simp: bind_result_eq_Inr intro: bottom_up.intros)

lemma list_all2_visit:
  "list_all2 (\<lambda>a b. P a b \<and> Transformer_visit E x a = Inr b) es es' \<Longrightarrow>
   Transformer_visit_list E x es = Inr es'"
  by (induction es es' rule: list_all2_induct) (simp_all add: bind_result_Inr)

lemma bottom_up_visit:
  "bottom_up E x e e' \<Longrightarrow> Transformer_visit E x e = Inr e'"
proof (induction rule: bottom_up.induct)
  case (rw_BinOp l l' r r' op parsed simplified factored final new)
  then show ?case
    by (simp add: bind_result_Inr optimize_node_eq_Inr del: if_split)
qed (simp_all add: bind_result_Inr list_all2_visit)


lemma visit_iff_bottom_up:
  "Transformer_visit E x e = Inr e' \<longleftrightarrow> bottom_up E x e e'"
  using visit_bottom_up(1) bottom_up_visit by blast

lemma visit_list_iff_bottom_up:
  "Transformer_visit_list E x es = Inr es' \<longleftrightarrow> list_all2 (bottom_up E x) es es'"
proof
  assume "list_all2 (bottom_up E x) es es'"
  then show "Transformer_visit_list E x es = Inr es'"
    by (induction es es' rule: list_all2_induct) (simp_all add: bind_result_Inr bottom_up_visit)
qed (rule visit_bottom_up(2))

lemma visit_stmt_bottom_up:
  "\<And>s'. Transformer_visit_stmt E x s = Inr s' \<Longrightarrow> bottom_up_stmt E x s s'"
  "\<And>ss'. Transformer_visit_stmts E x ss = Inr ss' \<Longrightarrow> list_all2 (bottom_up_stmt E x) ss ss'"
  by (induction E x s and E x ss rule: Transformer_visit_stmt_Transformer_visit_stmts.induct)
     (auto simp: bind_result_eq_Inr visit_iff_bottom_up visit_list_iff_bottom_up
           intro: bottom_up_stmt.intros)

lemma list_all2_visit_stmt:
  "list_all2 (\<lambda>a b. P a b \<and> Transformer_visit_stmt E x a = Inr b) ss ss' \<Longrightarrow>
   Transformer_visit_stmts E x ss = Inr ss'"
  by (induction ss ss' rule: list_all2_induct) (simp_all add: bind_result_Inr)

lemma bottom_up_visit_stmt:
  "bottom_up_stmt E x s s' \<Longrightarrow> Transformer_visit_stmt E x s = Inr s'"
  by (induction rule: bottom_up_stmt.induct)
     (simp_all add: bind_result_Inr list_all2_visit_stmt
        visit_iff_bottom_up [symmetric] visit_list_iff_bottom_up [symmetric])

lemma visit_stmts_iff_bottom_up:
  "Transformer_visit_stmts E x ss = Inr ss' \<longleftrightarrow> list_all2 (bottom_up_stmt E x) ss ss'"
proof
  assume "list_all2 (bottom_up_stmt E x) ss ss'"
  then show "Transformer_visit_stmts E x ss = Inr ss'"
    by (induction ss ss' rule: list_all2_induct) (simp_all add: bind_result_Inr bottom_up_visit_stmt)
qed (rule visit_stmt_bottom_up(2))

text \<open>
  Claim C1. For every tree and both values of the expand flag, \<open>optimize_tree\<close> returns
  a tree exactly when that tree is the bottom-up rewriting of the input: the operands
  of a binary operation are optimized before the operation, and the operation with
  its optimized operands is rendered, parsed, simplified, factored, expanded only
  when the flag is on, rendered, parsed back and put in the place of the operation.
\<close>

theorem optimize_tree_bottom_up:
  "optimize_tree E expand_enabled tree = Inr tree' \<longleftrightarrow> bottom_up_module E expand_enabled tree tree'"
proof (cases tree')
  case (Module ss')
  then show ?thesis
    by (auto simp: optimize_tree_def bottom_up_module_def bind_result_eq_Inr
        visit_stmts_iff_bottom_up)
qed

lemmas demo_defs =
  demo_engine_def demo_parse_def demo_parse_table_def demo_sympify_def demo_simplify_def
  demo_expand_def demo_diff_def demo_unparse_module_def x_plus_2_def
  optimize_node_def parse_value_def bind_result_def optimize_tree_def

text \<open>
  The examples \<^verbatim>\<open>y = 4 * (2 + 3)\<close> and, with the flag on, \<^verbatim>\<open>a = (x + 2) * (x + 2)\<close> of
  the test suite. The engine of the examples does not know the text \<^verbatim>\<open>4 * (2 + 3)\<close>:
  the outer product is rendered after its operand became \<^verbatim>\<open>5\<close>.
\<close>

theorem optimize_tree_bottom_up_witness:
  "bottom_up_module demo_engine False
     (Module [Assign [Name ''y'']
        (BinOp (Constant (IntC 4)) Mult (BinOp (Constant (IntC 2)) Add (Constant (IntC 3)))) 1])
     (Module [Assign [Name ''y''] (Constant (IntC 20)) 1])
   \<and> bottom_up_module demo_engine True
     (Module [Assign [Name ''a''] (BinOp x_plus_2 Mult x_plus_2) 1])
     (Module [Assign [Name ''a'']
        (BinOp (BinOp (BinOp (Name ''x'') PowOp (Constant (IntC 2))) Add
                      (BinOp (Constant (IntC 4)) Mult (Name ''x''))) Add (Constant (IntC 4))) 1])"
proof -
  have "optimize_tree demo_engine False
       (Module [Assign [Name ''y'']
         (BinOp (Constant (IntC 4)) Mult (BinOp (Constant (IntC 2)) Add (Constant (IntC 3)))) 1])
     = Inr (Module [Assign [Name ''y''] (Constant (IntC 20)) 1])"
    by (simp add: demo_defs dec.simps)
  moreover have "optimize_tree demo_engine True
       (Module [Assign [Name ''a''] (BinOp x_plus_2 Mult x_plus_2) 1])
     = Inr (Module [Assign [Name ''a'']
         (BinOp (BinOp (BinOp (Name ''x'') PowOp (Constant (IntC 2))) Add
                       (BinOp (Constant (IntC 4)) Mult (Name ''x''))) Add (Constant (IntC 4))) 1])"
    by (simp add: demo_defs dec.simps)
  ultimately show ?thesis
    using optimize_tree_bottom_up [of demo_engine] by blast
qed

lemma visit_no_binop:
  "filter is_BinOp (expr_nodes e) = [] \<Longrightarrow> Transformer_visit E x e = Inr e"
  "filter is_BinOp (concat (map expr_nodes es)) = [] \<Longrightarrow> Transformer_visit_list E x es = Inr es"
  by (induction E x e and E x es rule: Transformer_visit_Transformer_visit_list.induct)
     (simp_all add: bind_result_Inr)

lemma visit_stmt_no_binop:
  "filter is_BinOp (stmt_nodes s) = [] \<Longrightarrow> Transformer_visit_stmt E x s = Inr s"
  "filter is_BinOp (concat (map stmt_nodes ss)) = [] \<Longrightarrow> Transformer_visit_stmts E x ss = Inr ss"
  by (induction E x s and E x ss rule: Transformer_visit_stmt_Transformer_visit_stmts.induct)
     (simp_all add: bind_result_Inr visit_no_binop)

lemma visit_stmts_nth:
  assumes "Transformer_visit_stmts E x ss = Inr ss'"
  shows "length ss' = length ss"
    and "i < length ss \<Longrightarrow> Transformer_visit_stmt E x (ss ! i) = Inr (ss' ! i)"
proof -
  from assms have rel: "list_all2 (bottom_up_stmt E x) ss ss'"
    by (simp add: visit_stmts_iff_bottom_up)
  then show "length ss' = length ss"
    by (simp add: list_all2_lengthD)
  assume "i < length ss"
  with rel have "bottom_up_stmt E x (ss ! i) (ss' ! i)"
    by (rule list_all2_nthD)
  then show "Transformer_visit_stmt E x (ss ! i) = Inr (ss' ! i)"
    by (rule bottom_up_visit_stmt)
qed

text \<open>
  Claim C3. An expression without binary-operation nodes is returned as it is, and so
  is a tree without binary-operation nodes: \<open>optimize_tree\<close> succeeds with the same
  tree, whose rendering is then the rendering of the input. In every tree that is
  optimized, the statements keep their places, and a statement without
  binary-operation nodes is returned as it is.
\<close>

theorem optimize_tree_no_binop:
  "(filter is_BinOp (expr_nodes e) = [] \<longrightarrow> Transformer_visit E x e = Inr e)
   \<and> (binop_nodes tree = [] \<longrightarrow> optimize_tree E x tree = Inr tree)
   \<and> (optimize_tree E x tree = Inr tree' \<longrightarrow>
        length (body tree') = length (body tree)
        \<and> (\<forall>i < length (body tree).
              filter is_BinOp (stmt_nodes (body tree ! i)) = [] \<longrightarrow> body tree' ! i = body tree ! i))"
proof (intro conjI impI allI)
  assume "filter is_BinOp (expr_nodes e) = []"
  then show "Transformer_visit E x e = Inr e"
    by (rule visit_no_binop)
next
  assume "binop_nodes tree = []"
  then have "Transformer_visit_stmts E x (body tree) = Inr (body tree)"
    by (simp add: binop_nodes_def module_nodes_def visit_stmt_no_binop)
  then show "optimize_tree E x tree = Inr tree"
    by (cases tree) (simp add: optimize_tree_def bind_result_Inr)
next
  assume opt: "optimize_tree E x tree = Inr tree'"
  then have ss: "Transformer_visit_stmts E x (body tree) = Inr (body tree')"
    by (auto simp: optimize_tree_def bind_result_eq_Inr)
  then show "length (body tree') = length (body tree)"
    by (rule visit_stmts_nth)
  fix i
  assume "i < length (body tree)" and "filter is_BinOp (stmt_nodes (body tree ! i)) = []"
  with visit_stmts_nth(2) [OF ss] visit_stmt_no_binop(1) [of "body tree ! i" E x]
  show "body tree' ! i = body tree ! i"
    by simp
qed

text \<open>The example \<^verbatim>\<open>print('hello')\<close> of the test suite, alone and before
  \<^verbatim>\<open>y = 4 * (2 + 3)\<close>.\<close>

theorem optimize_tree_no_binop_witness:
  "optimize_tree demo_engine False (Module [Expr (Call (Name ''print'') [Constant (StrC ''hello'')])])
     = Inr (Module [Expr (Call (Name ''print'') [Constant (StrC ''hello'')])])
   \<and> Transformer_visit demo_engine False (Call (Name ''print'') [Constant (StrC ''hello'')])
     = Inr (Call (Name ''print'') [Constant (StrC ''hello'')])
   \<and> body (Module [Expr (Call (Name ''print'') [Constant (StrC ''hello'')]),
                    Assign [Name ''y''] (Constant (IntC 20)) 2]) ! 0
     = body (Module [Expr (Call (Name ''print'') [Constant (StrC ''hello'')]),
                    Assign [Name ''y'']
                      (BinOp (Constant (IntC 4)) Mult
                         (BinOp (Constant (IntC 2)) Add (Constant (IntC 3)))) 2]) ! 0"
proof (intro conjI)
  have "binop_nodes (Module [Expr (Call (Name ''print'') [Constant (StrC ''hello'')])]) = []"
    by (simp add: binop_nodes_def module_nodes_def)
  then show "optimize_tree demo_engine False
       (Module [Expr (Call (Name ''print'') [Constant (StrC ''hello'')])])
     = Inr (Module [Expr (Call (Name ''print'') [Constant (StrC ''hello'')])])"
    using optimize_tree_no_binop [of "Name ''x''" demo_engine False] by blast
next
  have "filter is_BinOp (expr_nodes (Call (Name ''print'') [Constant (StrC ''hello'')])) = []"
    by simp
  then show "Transformer_visit demo_engine False (Call (Name ''print'') [Constant (StrC ''hello'')])
     = Inr (Call (Name ''print'') [Constant (StrC ''hello'')])"
    using optimize_tree_no_binop [of "Call (Name ''print'') [Constant (StrC ''hello'')]"
        demo_engine False "Module []"]
    by blast
next
  have run: "optimize_tree demo_engine False
       (Module [Expr (Call (Name ''print'') [Constant (StrC ''hello'')]),
                Assign [Name ''y'']
                  (BinOp (Constant (IntC 4)) Mult
                     (BinOp (Constant (IntC 2)) Add (Constant (IntC 3)))) 2])
     = Inr (Module [Expr (Call (Name ''print'') [Constant (StrC ''hello'')]),
                    Assign [Name ''y''] (Constant (IntC 20)) 2])"
    by (simp add: demo_defs dec.simps)
  have free: "filter is_BinOp (stmt_nodes
       (body (Module [Expr (Call (Name ''print'') [Constant (StrC ''hello'')]),
                Assign [Name ''y'']
                  (BinOp (Constant (IntC 4)) Mult
                     (BinOp (Constant (IntC 2)) Add (Constant (IntC 3)))) 2]) ! 0)) = []"
    by simp
  have first: "0 < length (body (Module [Expr (Call (Name ''print'') [Constant (StrC ''hello'')]),
                Assign [Name ''y'']
                  (BinOp (Constant (IntC 4)) Mult
                     (BinOp (Constant (IntC 2)) Add (Constant (IntC 3)))) 2]))"
    by simp
  from optimize_tree_no_binop [THEN conjunct2, THEN conjunct2, rule_format, OF run, THEN conjunct2,
      rule_format, OF first free]
  show "body (Module [Expr (Call (Name ''print'') [Constant (StrC ''hello'')]),
                    Assign [Name ''y''] (Constant (IntC 20)) 2]) ! 0
     = body (Module [Expr (Call (Name ''print'') [Constant (StrC ''hello'')]),
                    Assign [Name ''y'']
                      (BinOp (Constant (IntC 4)) Mult
                         (BinOp (Constant (IntC 2)) Add (Constant (IntC 3)))) 2]) ! 0" .
qed

subsection \<open>Failures\<close>

text \<open>When the walk of a tree succeeds, the walk of each of its nodes succeeds.\<close>

lemma visit_success_nodes:
  "\<And>e'. Transformer_visit E x e = Inr e' \<Longrightarrow> n \<in> set (expr_nodes e) \<Longrightarrow>
     \<exists>n'. Transformer_visit E x n = Inr n'"
  "\<And>es'. Transformer_visit_list E x es = Inr es' \<Longrightarrow> n \<in> set (concat (map expr_nodes es)) \<Longrightarrow>
     \<exists>n'. Transformer_visit E x n = Inr n'"
proof (induction E x e and E x es rule: Transformer_visit_Transformer_visit_list.induct)
  case (1 E x l op r)
  from "1.prems"(1) obtain l' r' where l: "Transformer_visit E x l = Inr l'"
    and r: "Transformer_visit E x r = Inr r'"
    by (auto simp: bind_result_eq_Inr)
  from "1.prems"(2) consider "n = BinOp l op r" | "n \<in> set (expr_nodes l)" | "n \<in> set (expr_nodes r)"
    by auto
  then show ?case
  proof cases
    case 1
    with "1.prems"(1) show ?thesis by blast
  next
    case 2
    with "1.IH"(1) [OF l] show ?thesis by blast
  next
    case 3
    with "1.IH"(2) [OF l r] show ?thesis by blast
  qed
next
  case (2 E x c)
  then show ?case by auto
next
  case (3 E x n)
  then show ?case by auto
next
  case (4 E x op e)
  from "4.prems"(1) obtain e1 where e: "Transformer_visit E x e = Inr e1"
    by (auto simp: bind_result_eq_Inr)
  from "4.prems"(2) consider "n = UnaryOp op e" | "n \<in> set (expr_nodes e)"
    by auto
  then show ?case
  proof cases
    case 1
    with "4.prems"(1) show ?thesis by blast
  next
    case 2
    with "4.IH" [OF e] show ?thesis by blast
  qed
next
  case (5 E x op es)
  from "5.prems"(1) obtain es1 where es: "Transformer_visit_list E x es = Inr es1"
    by (auto simp: bind_result_eq_Inr)
  from "5.prems"(2) consider "n = BoolOp op es" | "n \<in> set (concat (map expr_nodes es))"
    by auto
  then show ?case
  proof cases
    case 1
    with "5.prems"(1) show ?thesis by blast
  next
    case 2
    with "5.IH" [OF es] show ?thesis by blast
  qed
next
  case (6 E x l ops es)
  from "6.prems"(1) obtain l1 es1 where l: "Transformer_visit E x l = Inr l1"
    and es: "Transformer_visit_list E x es = Inr es1"
    by (auto simp: bind_result_eq_Inr)
  from "6.prems"(2) consider "n = Compare l ops es" | "n \<in> set (expr_nodes l)"
    | "n \<in> set (concat (map expr_nodes es))"
    by auto
  then show ?case
  proof cases
    case 1
    with "6.prems"(1) show ?thesis by blast
  next
    case 2
    with "6.IH"(1) [OF l] show ?thesis by blast
  next
    case 3
    with "6.IH"(2) [OF l es] show ?thesis by blast
  qed
next
  case (7 E x f args)
  from "7.prems"(1) obtain f1 args1 where f: "Transformer_visit E x f = Inr f1"
    and args: "Transformer_visit_list E x args = Inr args1"
    by (auto simp: bind_result_eq_Inr)
  from "7.prems"(2) consider "n = Call f args" | "n \<in> set (expr_nodes f)"
    | "n \<in> set (concat (map expr_nodes args))"
    by auto
  then show ?case
  proof cases
    case 1
    with "7.prems"(1) show ?thesis by blast
  next
    case 2
    with "7.IH"(1) [OF f] show ?thesis by blast
  next
    case 3
    with "7.IH"(2) [OF f args] show ?thesis by blast
  qed
next
  case (8 E x e a)
  from "8.prems"(1) obtain e1 where e: "Transformer_visit E x e = Inr e1"
    by (auto simp: bind_result_eq_Inr)
  from "8.prems"(2) consider "n = Attribute e a" | "n \<in> set (expr_nodes e)"
    by auto
  then show ?case
  proof cases
    case 1
    with "8.prems"(1) show ?thesis by blast
  next
    case 2
    with "8.IH" [OF e] show ?thesis by blast
  qed
next
  case (9 E x e i)
  from "9.prems"(1) obtain e1 i1 where e: "Transformer_visit E x e = Inr e1"
    and i: "Transformer_visit E x i = Inr i1"
    by (auto simp: bind_result_eq_Inr)
  from "9.prems"(2) consider "n = Subscript e i" | "n \<in> set (expr_nodes e)"
    | "n \<in> set (expr_nodes i)"
    by auto
  then show ?case
  proof cases
    case 1
    with "9.prems"(1) show ?thesis by blast
  next
    case 2
    with "9.IH"(1) [OF e] show ?thesis by blast
  next
    case 3
    with "9.IH"(2) [OF e i] show ?thesis by blast
  qed
next
  case (10 E x es)
  from "10.prems"(1) obtain es1 where es: "Transformer_visit_list E x es = Inr es1"
    by (auto simp: bind_result_eq_Inr)
  from "10.prems"(2) consider "n = Tuple es" | "n \<in> set (concat (map expr_nodes es))"
    by auto
  then show ?case
  proof cases
    case 1
    with "10.prems"(1) show ?thesis by blast
  next
    case 2
    with "10.IH" [OF es] show ?thesis by blast
  qed
next
  case (11 E x)
  then show ?case by simp
next
  case (12 E x e es)
  from "12.prems"(1) obtain e1 es1 where e: "Transformer_visit E x e = Inr e1"
    and es: "Transformer_visit_list E x es = Inr es1"
    by (auto simp: bind_result_eq_Inr)
  from "12.prems"(2) consider "n \<in> set (expr_nodes e)" | "n \<in> set (concat (map expr_nodes es))"
    by auto
  then show ?case
  proof cases
    case 1
    with "12.IH"(1) [OF e] show ?thesis by blast
  next
    case 2
    with "12.IH"(2) [OF e es] show ?thesis by blast
  qed
qed


lemma visit_stmt_success_nodes:
  "\<And>s'. Transformer_visit_stmt E x s = Inr s' \<Longrightarrow> n \<in> set (stmt_nodes s) \<Longrightarrow>
     \<exists>n'. Transformer_visit E x n = Inr n'"
  "\<And>ss'. Transformer_visit_stmts E x ss = Inr ss' \<Longrightarrow> n \<in> set (concat (map stmt_nodes ss)) \<Longrightarrow>
     \<exists>n'. Transformer_visit E x n = Inr n'"
proof (induction E x s and E x ss rule: Transformer_visit_stmt_Transformer_visit_stmts.induct)
  case (1 E x ts v lineno)
  from "1.prems"(1) obtain ts1 v1 where ts: "Transformer_visit_list E x ts = Inr ts1"
    and v: "Transformer_visit E x v = Inr v1"
    by (auto simp: bind_result_eq_Inr)
  from "1.prems"(2) consider "n \<in> set (concat (map expr_nodes ts))" | "n \<in> set (expr_nodes v)"
    by auto
  then show ?case
  proof cases
    case 1
    with ts show ?thesis by (rule visit_success_nodes(2))
  next
    case 2
    with v show ?thesis by (rule visit_success_nodes(1))
  qed
next
  case (2 E x t op v)
  from "2.prems"(1) obtain t1 v1 where t: "Transformer_visit E x t = Inr t1"
    and v: "Transformer_visit E x v = Inr v1"
    by (auto simp: bind_result_eq_Inr)
  from "2.prems"(2) consider "n \<in> set (expr_nodes t)" | "n \<in> set (expr_nodes v)"
    by auto
  then show ?case
  proof cases
    case 1
    with t show ?thesis by (rule visit_success_nodes(1))
  next
    case 2
    with v show ?thesis by (rule visit_success_nodes(1))
  qed
next
  case (3 E x v)
  from "3.prems"(1) obtain v1 where v: "Transformer_visit E x v = Inr v1"
    by (auto simp: bind_result_eq_Inr)
  from v "3.prems"(2) show ?case
    by (simp add: visit_success_nodes(1))
next
  case (4 E x c ss els)
  from "4.prems"(1) obtain c1 ss1 els1 where c: "Transformer_visit E x c = Inr c1"
    and ss: "Transformer_visit_stmts E x ss = Inr ss1"
    and els: "Transformer_visit_stmts E x els = Inr els1"
    by (auto simp: bind_result_eq_Inr)
  from "4.prems"(2) consider "n \<in> set (expr_nodes c)" | "n \<in> set (concat (map stmt_nodes ss))"
    | "n \<in> set (concat (map stmt_nodes els))"
    by auto
  then show ?case
  proof cases
    case 1
    with c show ?thesis by (rule visit_success_nodes(1))
  next
    case 2
    with "4.IH"(1) [OF c ss] show ?thesis by blast
  next
    case 3
    with "4.IH"(2) [OF c ss els] show ?thesis by blast
  qed
next
  case (5 E x c ss els)
  from "5.prems"(1) obtain c1 ss1 els1 where c: "Transformer_visit E x c = Inr c1"
    and ss: "Transformer_visit_stmts E x ss = Inr ss1"
    and els: "Transformer_visit_stmts E x els = Inr els1"
    by (auto simp: bind_result_eq_Inr)
  from "5.prems"(2) consider "n \<in> set (expr_nodes c)" | "n \<in> set (concat (map stmt_nodes ss))"
    | "n \<in> set (concat (map stmt_nodes els))"
    by auto
  then show ?case
  proof cases
    case 1
    with c show ?thesis by (rule visit_success_nodes(1))
  next
    case 2
    with "5.IH"(1) [OF c ss] show ?thesis by blast
  next
    case 3
    with "5.IH"(2) [OF c ss els] show ?thesis by blast
  qed
next
  case (6 E x t it ss els)
  from "6.prems"(1) obtain t1 it1 ss1 els1 where t: "Transformer_visit E x t = Inr t1"
    and it: "Transformer_visit E x it = Inr it1"
    and ss: "Transformer_visit_stmts E x ss = Inr ss1"
    and els: "Transformer_visit_stmts E x els = Inr els1"
    by (auto simp: bind_result_eq_Inr)
  from "6.prems"(2) consider "n \<in> set (expr_nodes t)" | "n \<in> set (expr_nodes it)"
    | "n \<in> set (concat (map stmt_nodes ss))" | "n \<in> set (concat (map stmt_nodes els))"
    by auto
  then show ?case
  proof cases
    case 1
    with t show ?thesis by (rule visit_success_nodes(1))
  next
    case 2
    with it show ?thesis by (rule visit_success_nodes(1))
  next
    case 3
    with "6.IH"(1) [OF t it ss] show ?thesis by blast
  next
    case 4
    with "6.IH"(2) [OF t it ss els] show ?thesis by blast
  qed
next
  case (7 E x f ps ss)
  from "7.prems"(1) obtain ss1 where ss: "Transformer_visit_stmts E x ss = Inr ss1"
    by (auto simp: bind_result_eq_Inr)
  with "7.IH" [OF ss] "7.prems"(2) show ?case by simp
next
  case (8 E x)
  then show ?case by simp
next
  case (9 E x)
  then show ?case by simp
next
  case (10 E x s ss)
  from "10.prems"(1) obtain s1 ss1 where s: "Transformer_visit_stmt E x s = Inr s1"
    and ss: "Transformer_visit_stmts E x ss = Inr ss1"
    by (auto simp: bind_result_eq_Inr)
  from "10.prems"(2) consider "n \<in> set (stmt_nodes s)" | "n \<in> set (concat (map stmt_nodes ss))"
    by auto
  then show ?case
  proof cases
    case 1
    with "10.IH"(1) [OF s] show ?thesis by blast
  next
    case 2
    with "10.IH"(2) [OF s ss] show ?thesis by blast
  qed
qed

lemma optimize_tree_success_nodes:
  assumes "optimize_tree E x tree = Inr tree'" and "n \<in> set (module_nodes tree)"
  shows "\<exists>n'. Transformer_visit E x n = Inr n'"
proof -
  from assms(1) obtain ss' where "Transformer_visit_stmts E x (body tree) = Inr ss'"
    by (auto simp: optimize_tree_def bind_result_eq_Inr)
  from this assms(2) show ?thesis
    unfolding module_nodes_def by (rule visit_stmt_success_nodes(2))
qed

lemma not_Inr_is_Inl: "(\<And>y. m \<noteq> Inr y) \<Longrightarrow> \<exists>e. m = Inl e"
  by (cases m) auto

lemma bind_result_Inl_any: "m = Inl e \<Longrightarrow> bind_result m f = Inl e"
  by (simp add: bind_result_def)

text \<open>
  Claim C7. Take the tree that \<open>process_file\<close> hands to the optimizer, a
  binary-operation node of it whose operands are optimized to \<open>l'\<close> and \<open>r'\<close>, and
  let SymPy fail to parse the text rendered for the node. Then \<open>optimize_node\<close>
  raises that error, \<open>optimize_tree\<close> ends with an error, and \<open>process_file\<close> ends
  with an error: it returns no output action for the file.
\<close>

theorem unparsable_binop_aborts_file:
  assumes parsed: "ast_parse E src = Inr tree0"
    and calc: "calculus_pass E diff_vars int_vars diff_lines tree0 = Inr tree1"
    and reparsed: "ast_parse E (ast_unparse_module E tree1) = Inr tree"
    and node: "BinOp l op r \<in> set (module_nodes tree)"
    and left: "Transformer_visit E x l = Inr l'"
    and right: "Transformer_visit E x r = Inr r'"
    and fails: "sympify E (ast_unparse E (BinOp l' op r')) = Inl e"
  shows "optimize_node E x (BinOp l' op r') = Inl e
    \<and> (\<exists>e'. optimize_tree E x tree = Inl e')
    \<and> (\<exists>e'. process_file E x inplace show_diff diff_vars int_vars diff_lines src = Inl e')"
proof -
  from fails have n: "optimize_node E x (BinOp l' op r') = Inl e"
    by (simp add: optimize_node_def bind_result_Inl)
  with left right have v: "Transformer_visit E x (BinOp l op r) = Inl e"
    by (simp add: bind_result_Inr)
  have "optimize_tree E x tree \<noteq> Inr t" for t
  proof
    assume "optimize_tree E x tree = Inr t"
    from optimize_tree_success_nodes [OF this node] v show False
      by simp
  qed
  then obtain e' where t: "optimize_tree E x tree = Inl e'"
    using not_Inr_is_Inl by blast
  from parsed calc reparsed t
  have "process_file E x inplace show_diff diff_vars int_vars diff_lines src = Inl e'"
    by (simp add: process_file_def MathExtractor_extract_def bind_result_Inr bind_result_Inl Let_def)
  with n t show ?thesis
    by blast
qed

text \<open>The file \<^verbatim>\<open>z = a[0] + 1\<close>: the engine of the examples cannot parse a subscript.\<close>

theorem unparsable_binop_aborts_file_witness:
  "optimize_node demo_engine False
     (BinOp (Subscript (Name ''a'') (Constant (IntC 0))) Add (Constant (IntC 1))) = Inl SympifyError
   \<and> (\<exists>e'. optimize_tree demo_engine False
         (Module [Assign [Name ''z'']
            (BinOp (Subscript (Name ''a'') (Constant (IntC 0))) Add (Constant (IntC 1))) 1]) = Inl e')
   \<and> (\<exists>e'. process_file demo_engine False True False {} {} {} (''z = a[0] + 1'' @ [CHR 0x0A]) = Inl e')"
proof (rule unparsable_binop_aborts_file)
  show "ast_parse demo_engine (''z = a[0] + 1'' @ [CHR 0x0A])
        = Inr (Module [Assign [Name ''z'']
            (BinOp (Subscript (Name ''a'') (Constant (IntC 0))) Add (Constant (IntC 1))) 1])"
    by (simp add: demo_defs)
  show "calculus_pass demo_engine {} {} {} (Module [Assign [Name ''z'']
            (BinOp (Subscript (Name ''a'') (Constant (IntC 0))) Add (Constant (IntC 1))) 1])
        = Inr (Module [Assign [Name ''z'']
            (BinOp (Subscript (Name ''a'') (Constant (IntC 0))) Add (Constant (IntC 1))) 1])"
    by (simp add: calculus_pass_def)
  show "ast_parse demo_engine (ast_unparse_module demo_engine (Module [Assign [Name ''z'']
            (BinOp (Subscript (Name ''a'') (Constant (IntC 0))) Add (Constant (IntC 1))) 1]))
        = Inr (Module [Assign [Name ''z'']
            (BinOp (Subscript (Name ''a'') (Constant (IntC 0))) Add (Constant (IntC 1))) 1])"
    by (simp add: demo_defs dec.simps)
  show "BinOp (Subscript (Name ''a'') (Constant (IntC 0))) Add (Constant (IntC 1))
        \<in> set (module_nodes (Module [Assign [Name ''z'']
            (BinOp (Subscript (Name ''a'') (Constant (IntC 0))) Add (Constant (IntC 1))) 1]))"
    by (simp add: module_nodes_def)
  show "Transformer_visit demo_engine False (Subscript (Name ''a'') (Constant (IntC 0)))
        = Inr (Subscript (Name ''a'') (Constant (IntC 0)))"
    by (simp add: bind_result_Inr)
  show "Transformer_visit demo_engine False (Constant (IntC 1)) = Inr (Constant (IntC 1))"
    by simp
  show "sympify demo_engine (ast_unparse demo_engine
          (BinOp (Subscript (Name ''a'') (Constant (IntC 0))) Add (Constant (IntC 1))))
        = Inl SympifyError"
    by (simp add: demo_defs dec.simps)
qed

section \<open>Properties of the expression extractor\<close>

text \<open>A visit appends to \<open>nodes\<close> the binary-operation nodes below the visited node, in the
  order of \<open>expr_nodes\<close>, and changes nothing else.\<close>

lemma MathExtractor_visit_nodes:
  "MathExtractor_visit e self = self\<lparr>nodes := nodes self @ filter is_BinOp (expr_nodes e)\<rparr>"
  "MathExtractor_visit_list es self =
     self\<lparr>nodes := nodes self @ filter is_BinOp (concat (map expr_nodes es))\<rparr>"
  by (induction e self and es self rule: MathExtractor_visit_MathExtractor_visit_list.induct)
     (simp_all add: Let_def)

lemma MathExtractor_visit_stmt_nodes:
  "MathExtractor_visit_stmt s self = self\<lparr>nodes := nodes self @ filter is_BinOp (stmt_nodes s)\<rparr>"
  "MathExtractor_visit_stmts ss self =
     self\<lparr>nodes := nodes self @ filter is_BinOp (concat (map stmt_nodes ss))\<rparr>"
  by (induction s self and ss self rule: MathExtractor_visit_stmt_MathExtractor_visit_stmts.induct)
     (simp_all add: MathExtractor_visit_nodes)

lemma block_in_context:
  assumes "\<exists>before after. xs = before @ m @ after"
  shows "\<exists>before after. p @ xs @ q = before @ m @ after"
proof -
  from assms obtain b a where "xs = b @ m @ a" by blast
  then have "p @ xs @ q = (p @ b) @ m @ (a @ q)" by simp
  then show ?thesis by blast
qed

lemma block_in_concat:
  assumes "x \<in> set xs" and "\<exists>before after. f x = before @ m @ after"
  shows "\<exists>before after. concat (map f xs) = before @ m @ after"
proof -
  from assms(1) obtain ys zs where "xs = ys @ x # zs"
    by (auto dest: split_list)
  then have "concat (map f xs) = concat (map f ys) @ f x @ concat (map f zs)"
    by simp
  with block_in_context [OF assms(2)] show ?thesis
    by simp
qed

lemma block_cons:
  assumes "\<exists>before after. xs = before @ m @ after"
  shows "\<exists>before after. y # xs = before @ m @ after"
  using block_in_context [OF assms, of "[y]" "[]"] by simp

lemma block_self: "\<exists>before after. xs = before @ xs @ after"
proof -
  have "xs = [] @ xs @ []" by simp
  then show ?thesis by blast
qed

lemma block_left:
  assumes "\<exists>before after. xs = before @ m @ after"
  shows "\<exists>before after. xs @ q = before @ m @ after"
  using block_in_context [OF assms, of "[]" q] by simp

lemma block_right:
  assumes "\<exists>before after. xs = before @ m @ after"
  shows "\<exists>before after. p @ xs = before @ m @ after"
  using block_in_context [OF assms, of p "[]"] by simp

lemma in_concat_block:
  assumes "n \<in> set (concat (map expr_nodes es))"
    and "\<And>e. e \<in> set es \<Longrightarrow> n \<in> set (expr_nodes e) \<Longrightarrow>
           \<exists>before after. expr_nodes e = before @ expr_nodes n @ after"
  shows "\<exists>before after. concat (map expr_nodes es) = before @ expr_nodes n @ after"
proof -
  from assms(1) obtain e where e: "e \<in> set es" "n \<in> set (expr_nodes e)"
    by auto
  from e(1) assms(2) [OF e] show ?thesis
    by (rule block_in_concat)
qed

lemma subtree_block:
  "n \<in> set (expr_nodes e) \<Longrightarrow> \<exists>before after. expr_nodes e = before @ expr_nodes n @ after"
proof (induction e)
  case (Constant c)
  then show ?case by (auto intro: block_self)
next
  case (Name v)
  then show ?case by (auto intro: block_self)
next
  case (BinOp l op r)
  from BinOp.prems consider "n = BinOp l op r" | "n \<in> set (expr_nodes l)" | "n \<in> set (expr_nodes r)"
    by auto
  then show ?case
  proof cases
    case 1
    then show ?thesis by (simp only: block_self)
  next
    case 2
    from block_left [OF BinOp.IH(1) [OF 2]] show ?thesis
      by (simp add: block_cons)
  next
    case 3
    from block_right [OF BinOp.IH(2) [OF 3]] show ?thesis
      by (simp add: block_cons)
  qed
next
  case (UnaryOp op e)
  from UnaryOp.prems consider "n = UnaryOp op e" | "n \<in> set (expr_nodes e)"
    by auto
  then show ?case
  proof cases
    case 1
    then show ?thesis by (simp only: block_self)
  next
    case 2
    from UnaryOp.IH [OF 2] show ?thesis
      by (simp add: block_cons)
  qed
next
  case (BoolOp op es)
  from BoolOp.prems consider "n = BoolOp op es" | "n \<in> set (concat (map expr_nodes es))"
    by auto
  then show ?case
  proof cases
    case 1
    then show ?thesis by (simp only: block_self)
  next
    case 2
    from in_concat_block [OF 2 BoolOp.IH] show ?thesis
      by (simp add: block_cons)
  qed
next
  case (Compare l ops es)
  from Compare.prems consider "n = Compare l ops es" | "n \<in> set (expr_nodes l)"
    | "n \<in> set (concat (map expr_nodes es))"
    by auto
  then show ?case
  proof cases
    case 1
    then show ?thesis by (simp only: block_self)
  next
    case 2
    from block_left [OF Compare.IH(1) [OF 2]] show ?thesis
      by (simp add: block_cons)
  next
    case 3
    from block_right [OF in_concat_block [OF 3 Compare.IH(2)]] show ?thesis
      by (simp add: block_cons)
  qed
next
  case (Call f args)
  from Call.prems consider "n = Call f args" | "n \<in> set (expr_nodes f)"
    | "n \<in> set (concat (map expr_nodes args))"
    by auto
  then show ?case
  proof cases
    case 1
    then show ?thesis by (simp only: block_self)
  next
    case 2
    from block_left [OF Call.IH(1) [OF 2]] show ?thesis
      by (simp add: block_cons)
  next
    case 3
    from block_right [OF in_concat_block [OF 3 Call.IH(2)]] show ?thesis
      by (simp add: block_cons)
  qed
next
  case (Attribute e a)
  from Attribute.prems consider "n = Attribute e a" | "n \<in> set (expr_nodes e)"
    by auto
  then show ?case
  proof cases
    case 1
    then show ?thesis by (simp only: block_self)
  next
    case 2
    from Attribute.IH [OF 2] show ?thesis
      by (simp add: block_cons)
  qed
next
  case (Subscript e i)
  from Subscript.prems consider "n = Subscript e i" | "n \<in> set (expr_nodes e)"
    | "n \<in> set (expr_nodes i)"
    by auto
  then show ?case
  proof cases
    case 1
    then show ?thesis by (simp only: block_self)
  next
    case 2
    from block_left [OF Subscript.IH(1) [OF 2]] show ?thesis
      by (simp add: block_cons)
  next
    case 3
    from block_right [OF Subscript.IH(2) [OF 3]] show ?thesis
      by (simp add: block_cons)
  qed
next
  case (Tuple es)
  from Tuple.prems consider "n = Tuple es" | "n \<in> set (concat (map expr_nodes es))"
    by auto
  then show ?case
  proof cases
    case 1
    then show ?thesis by (simp only: block_self)
  next
    case 2
    from in_concat_block [OF 2 Tuple.IH] show ?thesis
      by (simp add: block_cons)
  qed
qed


lemma in_concat_stmt_block:
  assumes "n \<in> set (concat (map stmt_nodes ss))"
    and "\<And>s. s \<in> set ss \<Longrightarrow> n \<in> set (stmt_nodes s) \<Longrightarrow>
           \<exists>before after. stmt_nodes s = before @ expr_nodes n @ after"
  shows "\<exists>before after. concat (map stmt_nodes ss) = before @ expr_nodes n @ after"
proof -
  from assms(1) obtain s where s: "s \<in> set ss" "n \<in> set (stmt_nodes s)"
    by auto
  from s(1) assms(2) [OF s] show ?thesis
    by (rule block_in_concat)
qed

lemma in_concat_expr_block:
  assumes "n \<in> set (concat (map expr_nodes es))"
  shows "\<exists>before after. concat (map expr_nodes es) = before @ expr_nodes n @ after"
  using assms by (rule in_concat_block) (rule subtree_block)

lemma stmt_subtree_block:
  "n \<in> set (stmt_nodes s) \<Longrightarrow> \<exists>before after. stmt_nodes s = before @ expr_nodes n @ after"
proof (induction s)
  case (Assign ts v lineno)
  from Assign.prems consider "n \<in> set (concat (map expr_nodes ts))" | "n \<in> set (expr_nodes v)"
    by auto
  then show ?case
  proof cases
    case 1
    from block_left [OF in_concat_expr_block [OF 1]] show ?thesis by simp
  next
    case 2
    from block_right [OF subtree_block [OF 2]] show ?thesis by simp
  qed
next
  case (AugAssign t op v)
  from AugAssign.prems consider "n \<in> set (expr_nodes t)" | "n \<in> set (expr_nodes v)"
    by auto
  then show ?case
  proof cases
    case 1
    from block_left [OF subtree_block [OF 1]] show ?thesis by simp
  next
    case 2
    from block_right [OF subtree_block [OF 2]] show ?thesis by simp
  qed
next
  case (Expr v)
  then show ?case by (simp add: subtree_block)
next
  case (IfStmt c ss els)
  from IfStmt.prems consider "n \<in> set (expr_nodes c)" | "n \<in> set (concat (map stmt_nodes ss))"
    | "n \<in> set (concat (map stmt_nodes els))"
    by auto
  then show ?case
  proof cases
    case 1
    from block_left [OF subtree_block [OF 1]] show ?thesis by simp
  next
    case 2
    from block_in_context [OF in_concat_stmt_block [OF 2 IfStmt.IH(1)]] show ?thesis by simp
  next
    case 3
    from block_right [OF in_concat_stmt_block [OF 3 IfStmt.IH(2)]] show ?thesis
      by (simp del: append_assoc add: append_assoc [symmetric])
  qed
next
  case (While c ss els)
  from While.prems consider "n \<in> set (expr_nodes c)" | "n \<in> set (concat (map stmt_nodes ss))"
    | "n \<in> set (concat (map stmt_nodes els))"
    by auto
  then show ?case
  proof cases
    case 1
    from block_left [OF subtree_block [OF 1]] show ?thesis by simp
  next
    case 2
    from block_in_context [OF in_concat_stmt_block [OF 2 While.IH(1)]] show ?thesis by simp
  next
    case 3
    from block_right [OF in_concat_stmt_block [OF 3 While.IH(2)]] show ?thesis
      by (simp del: append_assoc add: append_assoc [symmetric])
  qed
next
  case (For t it ss els)
  from For.prems consider "n \<in> set (expr_nodes t)" | "n \<in> set (expr_nodes it)"
    | "n \<in> set (concat (map stmt_nodes ss))" | "n \<in> set (concat (map stmt_nodes els))"
    by auto
  then show ?case
  proof cases
    case 1
    from block_left [OF subtree_block [OF 1]] show ?thesis by simp
  next
    case 2
    from block_in_context [OF subtree_block [OF 2]] show ?thesis by simp
  next
    case 3
    from block_right [OF block_in_context [OF in_concat_stmt_block [OF 3 For.IH(1)]]]
    show ?thesis by simp
  next
    case 4
    from block_right [OF block_right [OF block_right [OF in_concat_stmt_block [OF 4 For.IH(2)]]]]
    show ?thesis by simp
  qed
next
  case (FunctionDef f ps ss)
  from FunctionDef.prems have "n \<in> set (concat (map stmt_nodes ss))"
    by simp
  from in_concat_stmt_block [OF this FunctionDef.IH] show ?case by simp
next
  case Pass
  then show ?case by simp
qed

lemma module_subtree_block:
  assumes "n \<in> set (module_nodes tree)"
  shows "\<exists>before after. module_nodes tree = before @ expr_nodes n @ after"
  using assms unfolding module_nodes_def
  by (rule in_concat_stmt_block) (rule stmt_subtree_block)

lemma expr_nodes_first: "expr_nodes e = e # tl (expr_nodes e)"
  by (cases e) simp_all

lemma binop_block:
  assumes "n \<in> set (binop_nodes tree)"
  shows "\<exists>before after. binop_nodes tree = before @ n # filter is_BinOp (tl (expr_nodes n)) @ after"
proof -
  from assms have n: "n \<in> set (module_nodes tree)" and b: "is_BinOp n"
    by (simp_all add: binop_nodes_def)
  from module_subtree_block [OF n] obtain before after
    where "module_nodes tree = before @ expr_nodes n @ after" by blast
  then have "binop_nodes tree
      = filter is_BinOp before @ filter is_BinOp (expr_nodes n) @ filter is_BinOp after"
    by (simp add: binop_nodes_def)
  also have "filter is_BinOp (expr_nodes n) = n # filter is_BinOp (tl (expr_nodes n))"
    using b by (subst expr_nodes_first) simp
  finally show ?thesis
    by auto
qed

lemma extract_result:
  assumes "ast_parse E source = Inr tree"
  shows "MathExtractor_extract E self source
     = Inr ((tree, nodes self @ binop_nodes tree), self\<lparr>nodes := nodes self @ binop_nodes tree\<rparr>)"
  using assms
  by (simp add: MathExtractor_extract_def bind_result_Inr MathExtractor_visit_stmt_nodes
      binop_nodes_def module_nodes_def)

text \<open>
  Claim C4. When the source parses to \<open>tree\<close>, \<open>extract\<close> returns this very tree (the
  visitor returns no tree and the model of the tree is a value, so nothing is
  rewritten) and the list \<open>nodes\<close>: for a new extractor the binary-operation nodes of
  the tree, for any extractor these nodes after the ones it held. Every
  binary-operation node of the tree is in the list, and each node of the list is
  followed at once by the binary-operation nodes below it: a parent stands before its
  children.
\<close>

theorem extract_lists_binops_parent_first:
  assumes "ast_parse E source = Inr tree"
  shows "MathExtractor_extract E MathExtractor_init source
       = Inr ((tree, binop_nodes tree), \<lparr>nodes = binop_nodes tree\<rparr>)
    \<and> MathExtractor_extract E self source
       = Inr ((tree, nodes self @ binop_nodes tree), self\<lparr>nodes := nodes self @ binop_nodes tree\<rparr>)
    \<and> (\<forall>n \<in> set (module_nodes tree). is_BinOp n \<longrightarrow> n \<in> set (binop_nodes tree))
    \<and> (\<forall>n \<in> set (binop_nodes tree). \<exists>before after.
          binop_nodes tree = before @ n # filter is_BinOp (tl (expr_nodes n)) @ after)"
proof (intro conjI ballI impI)
  show "MathExtractor_extract E MathExtractor_init source
       = Inr ((tree, binop_nodes tree), \<lparr>nodes = binop_nodes tree\<rparr>)"
    using extract_result [OF assms, of MathExtractor_init]
    by (simp add: MathExtractor_init_def)
next
  show "MathExtractor_extract E self source
       = Inr ((tree, nodes self @ binop_nodes tree), self\<lparr>nodes := nodes self @ binop_nodes tree\<rparr>)"
    by (rule extract_result [OF assms])
next
  fix n
  assume "n \<in> set (module_nodes tree)" and "is_BinOp n"
  then show "n \<in> set (binop_nodes tree)"
    by (simp add: binop_nodes_def)
next
  fix n
  assume "n \<in> set (binop_nodes tree)"
  then show "\<exists>before after.
          binop_nodes tree = before @ n # filter is_BinOp (tl (expr_nodes n)) @ after"
    by (rule binop_block)
qed

text \<open>The file \<^verbatim>\<open>y = 4 * (2 + 3)\<close>: the product is listed before the sum inside it.\<close>

theorem extract_lists_binops_parent_first_witness:
  "MathExtractor_extract demo_engine MathExtractor_init (''y = 4 * (2 + 3)'' @ [CHR 0x0A])
     = Inr ((Module [Assign [Name ''y'']
               (BinOp (Constant (IntC 4)) Mult (BinOp (Constant (IntC 2)) Add (Constant (IntC 3)))) 1],
             [BinOp (Constant (IntC 4)) Mult (BinOp (Constant (IntC 2)) Add (Constant (IntC 3))),
              BinOp (Constant (IntC 2)) Add (Constant (IntC 3))]),
            \<lparr>nodes = [BinOp (Constant (IntC 4)) Mult (BinOp (Constant (IntC 2)) Add (Constant (IntC 3))),
                      BinOp (Constant (IntC 2)) Add (Constant (IntC 3))]\<rparr>)"
proof -
  have p: "ast_parse demo_engine (''y = 4 * (2 + 3)'' @ [CHR 0x0A])
     = Inr (Module [Assign [Name ''y'']
               (BinOp (Constant (IntC 4)) Mult (BinOp (Constant (IntC 2)) Add (Constant (IntC 3)))) 1])"
    by (simp add: demo_defs)
  have b: "binop_nodes (Module [Assign [Name ''y'']
               (BinOp (Constant (IntC 4)) Mult (BinOp (Constant (IntC 2)) Add (Constant (IntC 3)))) 1])
     = [BinOp (Constant (IntC 4)) Mult (BinOp (Constant (IntC 2)) Add (Constant (IntC 3))),
        BinOp (Constant (IntC 2)) Add (Constant (IntC 3))]"
    by (simp add: binop_nodes_def module_nodes_def)
  from extract_lists_binops_parent_first [OF p, of MathExtractor_init, THEN conjunct1]
  show ?thesis
    by (simp add: b)
qed

text \<open>
  Claim C10. \<open>nodes\<close> is never reset. After a call of \<open>extract\<close> that returned the list
  \<open>found1\<close>, a second call on another source returns \<open>found1\<close> followed by the
  binary-operation nodes of the new tree. The list of a call is exactly the list of
  its tree only when the extractor held no node before the call, as a new extractor
  does.
\<close>

theorem extract_accumulates:
  assumes first: "MathExtractor_extract E self0 source1 = Inr ((tree1, found1), self1)"
    and second: "ast_parse E source2 = Inr tree2"
  shows "found1 = nodes self0 @ binop_nodes tree1
    \<and> MathExtractor_extract E self1 source2
       = Inr ((tree2, found1 @ binop_nodes tree2), self1\<lparr>nodes := found1 @ binop_nodes tree2\<rparr>)
    \<and> (found1 = binop_nodes tree1 \<longleftrightarrow> nodes self0 = [])
    \<and> nodes MathExtractor_init = []"
proof -
  from first obtain t where t: "ast_parse E source1 = Inr t"
    by (auto simp: MathExtractor_extract_def bind_result_eq_Inr)
  from first extract_result [OF t, of self0]
  have 1: "tree1 = t" "found1 = nodes self0 @ binop_nodes tree1"
    "self1 = self0\<lparr>nodes := nodes self0 @ binop_nodes tree1\<rparr>"
    by auto
  from 1 have "nodes self1 = found1"
    by simp
  with extract_result [OF second, of self1] 1(2) show ?thesis
    by (simp add: MathExtractor_init_def)
qed

text \<open>A second call, on \<^verbatim>\<open>z = a[0] + 1\<close>, of the extractor that has read
  \<^verbatim>\<open>y = 4 * (2 + 3)\<close>.\<close>

theorem extract_accumulates_witness:
  "MathExtractor_extract demo_engine
     \<lparr>nodes = [BinOp (Constant (IntC 4)) Mult (BinOp (Constant (IntC 2)) Add (Constant (IntC 3))),
               BinOp (Constant (IntC 2)) Add (Constant (IntC 3))]\<rparr>
     (''z = a[0] + 1'' @ [CHR 0x0A])
   = Inr ((Module [Assign [Name ''z'']
             (BinOp (Subscript (Name ''a'') (Constant (IntC 0))) Add (Constant (IntC 1))) 1],
           [BinOp (Constant (IntC 4)) Mult (BinOp (Constant (IntC 2)) Add (Constant (IntC 3))),
            BinOp (Constant (IntC 2)) Add (Constant (IntC 3)),
            BinOp (Subscript (Name ''a'') (Constant (IntC 0))) Add (Constant (IntC 1))]),
          \<lparr>nodes = [BinOp (Constant (IntC 4)) Mult (BinOp (Constant (IntC 2)) Add (Constant (IntC 3))),
                    BinOp (Constant (IntC 2)) Add (Constant (IntC 3)),
                    BinOp (Subscript (Name ''a'') (Constant (IntC 0))) Add (Constant (IntC 1))]\<rparr>)"
proof -
  have first: "MathExtractor_extract demo_engine MathExtractor_init (''y = 4 * (2 + 3)'' @ [CHR 0x0A])
     = Inr ((Module [Assign [Name ''y'']
               (BinOp (Constant (IntC 4)) Mult (BinOp (Constant (IntC 2)) Add (Constant (IntC 3)))) 1],
             [BinOp (Constant (IntC 4)) Mult (BinOp (Constant (IntC 2)) Add (Constant (IntC 3))),
              BinOp (Constant (IntC 2)) Add (Constant (IntC 3))]),
            \<lparr>nodes = [BinOp (Constant (IntC 4)) Mult (BinOp (Constant (IntC 2)) Add (Constant (IntC 3))),
                      BinOp (Constant (IntC 2)) Add (Constant (IntC 3))]\<rparr>)"
    by (simp add: MathExtractor_extract_def MathExtractor_init_def demo_defs Let_def)
  have second: "ast_parse demo_engine (''z = a[0] + 1'' @ [CHR 0x0A])
     = Inr (Module [Assign [Name ''z'']
             (BinOp (Subscript (Name ''a'') (Constant (IntC 0))) Add (Constant (IntC 1))) 1])"
    by (simp add: demo_defs)
  have b: "binop_nodes (Module [Assign [Name ''z'']
             (BinOp (Subscript (Name ''a'') (Constant (IntC 0))) Add (Constant (IntC 1))) 1])
     = [BinOp (Subscript (Name ''a'') (Constant (IntC 0))) Add (Constant (IntC 1))]"
    by (simp add: binop_nodes_def module_nodes_def)
  from extract_accumulates [OF first second, THEN conjunct2, THEN conjunct1] show ?thesis
    by (simp add: b)
qed

section \<open>Properties of the calculus transform\<close>

text \<open>What \<open>visit_Assign\<close> returns, by the first target of the assignment.\<close>

lemma bind_result_assoc:
  "bind_result (bind_result m f) g = bind_result m (\<lambda>x. bind_result (f x) g)"
  by (cases m) (simp_all add: bind_result_def)

lemma visit_Assign_Name:
  "visit_Assign E dv iv dl (Name v # others) val n =
     bind_result (replaced_value E dv iv dl v n val) (\<lambda>val'. Inr (Assign (Name v # others) val' n))"
  by (simp add: visit_Assign_def replaced_value_def derivative_of_def antiderivative_of_def
      bind_result_assoc Let_def cong: if_cong)

lemma visit_Assign_other:
  "\<not> is_Name t \<Longrightarrow> visit_Assign E dv iv dl (t # others) val n = Inr (Assign (t # others) val n)"
  by (cases t) (simp_all add: visit_Assign_def)

lemma visit_Assign_is_Assign:
  assumes "visit_Assign E dv iv dl ts val n = Inr a"
  shows "\<exists>val'. a = Assign ts val' n"
proof (cases ts)
  case Nil
  with assms show ?thesis
    by (simp add: visit_Assign_def)
next
  case (Cons t others)
  show ?thesis
  proof (cases "is_Name t")
    case True
    then obtain v where "t = Name v"
      by (cases t) simp_all
    with assms Cons show ?thesis
      by (auto simp: visit_Assign_Name bind_result_eq_Inr)
  next
    case False
    with assms Cons show ?thesis
      by (auto simp: visit_Assign_other)
  qed
qed

subsection \<open>The walk and the relation of the specification\<close>





text \<open>With no name selected the relation holds between a statement and itself.\<close>

lemma replaced_value_idle: "replaced_value E {} {} dl v n val = Inr val"
  by (simp add: replaced_value_def bind_result_Inr)





text \<open>
  \<^verbatim>\<open>visit_Assign\<close> reads \<open>targets[0]\<close> only, under the comment \<^verbatim>\<open>Only single-target name
  assignments\<close>: the value of \<^verbatim>\<open>y = z = y ** 3\<close> is replaced as well. The amended
  claim leaves these assignments out.
\<close>

lemma first_target_of_several_rewritten:
  "calculus_pass demo_engine {''y''} {} {}
     (Module [Assign [Name ''y'', Name ''z''] (BinOp (Name ''y'') PowOp (Constant (IntC 3))) 1])
   = Inr (Module [Assign [Name ''y'', Name ''z'']
        (BinOp (Constant (IntC 3)) Mult (BinOp (Name ''y'') PowOp (Constant (IntC 2)))) 1])"
  by (simp add: calculus_pass_def visit_Assign_def demo_defs dec.simps)

subsection \<open>Integration with respect to a name given as text\<close>

lemma derivative_of_Text:
  "sympy_variables E \<Longrightarrow> derivative_of E (Text v) e = derivative_of E (Symbol v) e"
  by (simp add: sympy_variables_def derivative_of_def)

lemma antiderivative_of_Text:
  "sympy_variables E \<Longrightarrow>
   antiderivative_of E (Text v) e = bind_result (symbolic_value E e) (\<lambda>parsed. Inl ValueError)"
  by (simp add: sympy_variables_def antiderivative_of_def symbolic_value_def bind_result_Inl)

lemma bind_result_never: "bind_result m (\<lambda>x. Inl e) \<noteq> Inr y"
  by (cases m) (simp_all add: bind_result_def)

lemma replaced_value_integration:
  assumes "sympy_variables E" and "v \<in> iv" and "dl = {} \<or> n \<in> dl"
  shows "replaced_value E dv iv dl v n val \<noteq> Inr val'"
  using assms
  by (auto simp: replaced_value_def bind_result_eq_Inr antiderivative_of_Text bind_result_never)

lemma replaced_value_differentiation:
  assumes "sympy_variables E" and "v \<in> dv" and "dl = {} \<or> n \<in> dl"
    and "replaced_value E dv iv dl v n val = Inr val'"
  shows "derivative_of E (Symbol v) val = Inr val'"
proof (cases "v \<in> iv")
  case True
  with assms(1,3,4) show ?thesis
    by (simp add: replaced_value_integration)
next
  case False
  with assms show ?thesis
    by (auto simp: replaced_value_def bind_result_eq_Inr derivative_of_Text)
qed

lemma replaced_value_filtered:
  "\<not> (dl = {} \<or> n \<in> dl) \<Longrightarrow> replaced_value E dv iv dl v n val = Inr val"
  by (simp add: replaced_value_def bind_result_Inr)

text \<open>The walk visits every assignment of the tree, and what the visit returns
  stands in the tree that the walk returns.\<close>

lemma visit_reaches_assignments:
  "\<And>s'. CalcTransformer_visit E dv iv dl s = Inr s' \<Longrightarrow> Assign ts val n \<in> set (stmts_of s) \<Longrightarrow>
     \<exists>a. visit_Assign E dv iv dl ts val n = Inr a \<and> a \<in> set (stmts_of s')"
  "\<And>ss'. CalcTransformer_visit_list E dv iv dl ss = Inr ss' \<Longrightarrow>
     Assign ts val n \<in> set (concat (map stmts_of ss)) \<Longrightarrow>
     \<exists>a. visit_Assign E dv iv dl ts val n = Inr a \<and> a \<in> set (concat (map stmts_of ss'))"
proof (induction E dv iv dl s and E dv iv dl ss rule: CalcTransformer_visit_CalcTransformer_visit_list.induct)
  case (1 E dv iv dl ts0 val0 lineno)
  from "1.prems"(2) have same: "ts = ts0" "val = val0" "n = lineno"
    by simp_all
  from "1.prems"(1) have visit: "visit_Assign E dv iv dl ts0 val0 lineno = Inr s'"
    by simp
  from visit_Assign_is_Assign [OF this] have "s' \<in> set (stmts_of s')"
    by auto
  with visit same show ?case
    by blast
next
  case (4 E dv iv dl c ss els)
  from "4.prems"(1) obtain ss' els' where ss': "CalcTransformer_visit_list E dv iv dl ss = Inr ss'"
    and els': "CalcTransformer_visit_list E dv iv dl els = Inr els'"
    and s': "s' = IfStmt c ss' els'"
    by (auto simp: bind_result_eq_Inr)
  from "4.prems"(2) consider "Assign ts val n \<in> set (concat (map stmts_of ss))"
    | "Assign ts val n \<in> set (concat (map stmts_of els))"
    by auto
  then show ?case
  proof cases
    case 1
    from "4.IH"(1) [OF ss' 1] show ?thesis
      by (auto simp: s')
  next
    case 2
    from "4.IH"(2) [OF ss' els' 2] show ?thesis
      by (auto simp: s')
  qed
next
  case (5 E dv iv dl c ss els)
  from "5.prems"(1) obtain ss' els' where ss': "CalcTransformer_visit_list E dv iv dl ss = Inr ss'"
    and els': "CalcTransformer_visit_list E dv iv dl els = Inr els'"
    and s': "s' = While c ss' els'"
    by (auto simp: bind_result_eq_Inr)
  from "5.prems"(2) consider "Assign ts val n \<in> set (concat (map stmts_of ss))"
    | "Assign ts val n \<in> set (concat (map stmts_of els))"
    by auto
  then show ?case
  proof cases
    case 1
    from "5.IH"(1) [OF ss' 1] show ?thesis
      by (auto simp: s')
  next
    case 2
    from "5.IH"(2) [OF ss' els' 2] show ?thesis
      by (auto simp: s')
  qed
next
  case (6 E dv iv dl t it ss els)
  from "6.prems"(1) obtain ss' els' where ss': "CalcTransformer_visit_list E dv iv dl ss = Inr ss'"
    and els': "CalcTransformer_visit_list E dv iv dl els = Inr els'"
    and s': "s' = For t it ss' els'"
    by (auto simp: bind_result_eq_Inr)
  from "6.prems"(2) consider "Assign ts val n \<in> set (concat (map stmts_of ss))"
    | "Assign ts val n \<in> set (concat (map stmts_of els))"
    by auto
  then show ?case
  proof cases
    case 1
    from "6.IH"(1) [OF ss' 1] show ?thesis
      by (auto simp: s')
  next
    case 2
    from "6.IH"(2) [OF ss' els' 2] show ?thesis
      by (auto simp: s')
  qed
next
  case (7 E dv iv dl f ps ss)
  from "7.prems"(1) obtain ss' where ss': "CalcTransformer_visit_list E dv iv dl ss = Inr ss'"
    and s': "s' = FunctionDef f ps ss'"
    by (auto simp: bind_result_eq_Inr)
  from "7.prems"(2) have "Assign ts val n \<in> set (concat (map stmts_of ss))"
    by auto
  from "7.IH" [OF ss' this] show ?case
    by (auto simp: s')
next
  case (10 E dv iv dl s ss)
  from "10.prems"(1) obtain s' rest where s': "CalcTransformer_visit E dv iv dl s = Inr s'"
    and rest: "CalcTransformer_visit_list E dv iv dl ss = Inr rest"
    and ss': "ss' = s' # rest"
    by (auto simp: bind_result_eq_Inr)
  from "10.prems"(2) consider "Assign ts val n \<in> set (stmts_of s)"
    | "Assign ts val n \<in> set (concat (map stmts_of ss))"
    by auto
  then show ?case
  proof cases
    case 1
    from "10.IH"(1) [OF s' 1] show ?thesis
      by (auto simp: ss')
  next
    case 2
    from "10.IH"(2) [OF s' rest 2] show ?thesis
      by (auto simp: ss')
  qed
qed simp_all

lemma pass_reaches_assignments:
  assumes "calculus_pass E dv iv dl tree = Inr tree'"
    and "Assign [Name v] val n \<in> set (module_stmts tree)"
  shows "\<exists>val'. replaced_value E dv iv dl v n val = Inr val'
    \<and> Assign [Name v] val' n \<in> set (module_stmts tree')"
proof (cases "dv \<noteq> {} \<or> iv \<noteq> {} \<or> dl \<noteq> {}")
  case True
  with assms(1) obtain ss' where "CalcTransformer_visit_list E dv iv dl (body tree) = Inr ss'"
    and "tree' = Module ss'"
    by (auto simp: calculus_pass_def bind_result_eq_Inr)
  with visit_reaches_assignments(2) [OF this(1), of "[Name v]" val n] assms(2)
  show ?thesis
    by (auto simp: module_stmts_def visit_Assign_Name bind_result_eq_Inr)
next
  case False
  with assms show ?thesis
    by (auto simp: calculus_pass_def replaced_value_idle)
qed

lemma demo_sympy_variables: "sympy_variables demo_engine"
  by (simp add: sympy_variables_def demo_engine_def demo_diff_def)

text \<open>
  Claim C2 does not hold of the program. For an assignment to a name that is selected
  for differentiation and for integration, on a line that passes the filter, the
  visit differentiates with respect to the symbol of that name and reads the
  derivative again, as the claim says; but then \<^verbatim>\<open>sym_int(expr, varname)\<close> is called
  with the name as text, which SymPy rejects, so that no antiderivative is stored: the
  pass over a tree that holds such an assignment at any depth ends in an error, and
  so does \<^verbatim>\<open>process_file\<close>.
\<close>

theorem differentiation_then_integration_raises:
  assumes "sympy_variables E"
    and "Assign [Name v] val lineno \<in> set (module_stmts tree)"
    and "v \<in> diff_vars" and "v \<in> int_vars" and "diff_lines = {} \<or> lineno \<in> diff_lines"
  shows "CalcTransformer_visit E diff_vars int_vars diff_lines (Assign [Name v] val lineno) =
           bind_result (derivative_of E (Symbol v) val) (\<lambda>derivative.
           bind_result (symbolic_value E derivative) (\<lambda>parsed. Inl ValueError))
       \<and> (\<exists>e. calculus_pass E diff_vars int_vars diff_lines tree = Inl e)
       \<and> (ast_parse E src = Inr tree \<longrightarrow>
            (\<exists>e. process_file E expand_polynomials inplace show_diff diff_vars int_vars diff_lines src
               = Inl e))"
proof (intro conjI impI)
  from assms(1,3,4,5)
  show "CalcTransformer_visit E diff_vars int_vars diff_lines (Assign [Name v] val lineno) =
           bind_result (derivative_of E (Symbol v) val) (\<lambda>derivative.
           bind_result (symbolic_value E derivative) (\<lambda>parsed. Inl ValueError))"
    by (simp add: visit_Assign_Name replaced_value_def derivative_of_Text antiderivative_of_Text
        bind_result_assoc bind_result_Inl cong: if_cong)
next
  have "calculus_pass E diff_vars int_vars diff_lines tree \<noteq> Inr tree'" for tree'
    using pass_reaches_assignments [OF _ assms(2), of E diff_vars int_vars diff_lines tree']
      replaced_value_integration [OF assms(1,4,5)]
    by blast
  then show failed: "\<exists>e. calculus_pass E diff_vars int_vars diff_lines tree = Inl e"
    by (rule not_Inr_is_Inl)
  assume "ast_parse E src = Inr tree"
  with failed
  show "\<exists>e. process_file E expand_polynomials inplace show_diff diff_vars int_vars diff_lines src
      = Inl e"
    by (auto simp: process_file_def bind_result_Inr bind_result_Inl)
qed

text \<open>
  The file \<^verbatim>\<open>y = y ** 3\<close> with \<open>y\<close> selected for differentiation and for integration:
  the derivative \<^verbatim>\<open>3 * y ** 2\<close> is computed, the integration raises, and the file has
  no output.
\<close>

theorem differentiation_then_integration_raises_witness:
  "CalcTransformer_visit demo_engine {''y''} {''y''} {}
     (Assign [Name ''y''] (BinOp (Name ''y'') PowOp (Constant (IntC 3))) 1) = Inl ValueError
   \<and> derivative_of demo_engine (Symbol ''y'') (BinOp (Name ''y'') PowOp (Constant (IntC 3)))
     = Inr (BinOp (Constant (IntC 3)) Mult (BinOp (Name ''y'') PowOp (Constant (IntC 2))))
   \<and> (\<exists>e. process_file demo_engine False False True {''y''} {''y''} {} (''y = y ** 3'' @ [CHR 0x0A])
        = Inl e)
   \<and> process_file demo_engine False False True {''y''} {''y''} {} (''y = y ** 3'' @ [CHR 0x0A])
     = Inl ValueError"
proof -
  let ?tree = "Module [Assign [Name ''y''] (BinOp (Name ''y'') PowOp (Constant (IntC 3))) 1]"
  have d: "derivative_of demo_engine (Symbol ''y'') (BinOp (Name ''y'') PowOp (Constant (IntC 3)))
      = Inr (BinOp (Constant (IntC 3)) Mult (BinOp (Name ''y'') PowOp (Constant (IntC 2))))"
    by (simp add: derivative_of_def demo_defs dec.simps)
  have s: "symbolic_value demo_engine
        (BinOp (Constant (IntC 3)) Mult (BinOp (Name ''y'') PowOp (Constant (IntC 2))))
      = Inr ''3 * (y ** 2)''"
    by (simp add: symbolic_value_def demo_defs dec.simps)
  have mem: "Assign [Name ''y''] (BinOp (Name ''y'') PowOp (Constant (IntC 3))) 1
      \<in> set (module_stmts ?tree)"
    by (simp add: module_stmts_def)
  have sel: "''y'' \<in> {''y''}" and pass: "({} :: int set) = {} \<or> 1 \<in> ({} :: int set)"
    by simp_all
  have parsed: "ast_parse demo_engine (''y = y ** 3'' @ [CHR 0x0A]) = Inr ?tree"
    by (simp add: demo_defs)
  note run = differentiation_then_integration_raises [OF demo_sympy_variables mem sel sel pass,
      of "''y = y ** 3'' @ [CHR 0x0A]" False False True]
  have out: "process_file demo_engine False False True {''y''} {''y''} {} (''y = y ** 3'' @ [CHR 0x0A])
      = Inl ValueError"
    by (simp add: process_file_def calculus_pass_def visit_Assign_def demo_defs dec.simps)
  from run [THEN conjunct1] run [THEN conjunct2, THEN conjunct2, rule_format, OF parsed] d out
  show ?thesis
    by (simp add: d s bind_result_Inr)
qed

text \<open>
  Claim C6 does not hold of the program for the integration set. For an assignment
  to a plain name, at any depth of the tree: when the name is selected for
  integration and the line filter is empty or holds the line, the pass does not
  replace the value but ends in an error (the cause is that of claim C2). When the
  pass returns a tree, an assignment whose name is selected for differentiation and
  whose line the filter lets through stands in that tree with the derivative as its
  value, and an assignment whose line the filter holds back stands in it as it was.
\<close>

theorem line_filter_integration_raises:
  assumes "sympy_variables E"
    and "Assign [Name v] val lineno \<in> set (module_stmts tree)"
  shows "(v \<in> int_vars \<longrightarrow> diff_lines = {} \<or> lineno \<in> diff_lines \<longrightarrow>
            (\<exists>e. calculus_pass E diff_vars int_vars diff_lines tree = Inl e))
       \<and> (calculus_pass E diff_vars int_vars diff_lines tree = Inr tree' \<longrightarrow>
            (v \<in> diff_vars \<longrightarrow> diff_lines = {} \<or> lineno \<in> diff_lines \<longrightarrow>
               (\<exists>d. derivative_of E (Symbol v) val = Inr d
                  \<and> Assign [Name v] d lineno \<in> set (module_stmts tree')))
          \<and> (\<not> (diff_lines = {} \<or> lineno \<in> diff_lines) \<longrightarrow>
               Assign [Name v] val lineno \<in> set (module_stmts tree')))"
proof (intro conjI impI)
  assume sel: "v \<in> int_vars" and pass: "diff_lines = {} \<or> lineno \<in> diff_lines"
  have "calculus_pass E diff_vars int_vars diff_lines tree \<noteq> Inr t" for t
    using pass_reaches_assignments [OF _ assms(2), of E diff_vars int_vars diff_lines t]
      replaced_value_integration [OF assms(1) sel pass]
    by blast
  then show "\<exists>e. calculus_pass E diff_vars int_vars diff_lines tree = Inl e"
    by (rule not_Inr_is_Inl)
next
  assume run: "calculus_pass E diff_vars int_vars diff_lines tree = Inr tree'"
    and sel: "v \<in> diff_vars" and pass: "diff_lines = {} \<or> lineno \<in> diff_lines"
  from pass_reaches_assignments [OF run assms(2)] obtain val'
    where "replaced_value E diff_vars int_vars diff_lines v lineno val = Inr val'"
      and "Assign [Name v] val' lineno \<in> set (module_stmts tree')"
    by blast
  with replaced_value_differentiation [OF assms(1) sel pass this(1)]
  show "\<exists>d. derivative_of E (Symbol v) val = Inr d
      \<and> Assign [Name v] d lineno \<in> set (module_stmts tree')"
    by blast
next
  assume run: "calculus_pass E diff_vars int_vars diff_lines tree = Inr tree'"
    and held: "\<not> (diff_lines = {} \<or> lineno \<in> diff_lines)"
  from pass_reaches_assignments [OF run assms(2)]
    replaced_value_filtered [OF held, of E diff_vars int_vars v val]
  show "Assign [Name v] val lineno \<in> set (module_stmts tree')"
    by auto
qed

text \<open>
  The tree of \<^verbatim>\<open>y = y ** 3\<close> on line 1. With \<open>y\<close> selected for integration the pass
  raises under the empty filter and returns the tree as it is under the filter
  \<open>{2}\<close>; with \<open>y\<close> selected for differentiation the empty filter lets the line
  through.
\<close>

theorem line_filter_integration_raises_witness:
  "(\<exists>e. calculus_pass demo_engine {} {''y''} {}
       (Module [Assign [Name ''y''] (BinOp (Name ''y'') PowOp (Constant (IntC 3))) 1]) = Inl e)
   \<and> calculus_pass demo_engine {} {''y''} {}
       (Module [Assign [Name ''y''] (BinOp (Name ''y'') PowOp (Constant (IntC 3))) 1])
     = Inl ValueError
   \<and> calculus_pass demo_engine {} {''y''} {2}
       (Module [Assign [Name ''y''] (BinOp (Name ''y'') PowOp (Constant (IntC 3))) 1])
     = Inr (Module [Assign [Name ''y''] (BinOp (Name ''y'') PowOp (Constant (IntC 3))) 1])
   \<and> (\<exists>d. derivative_of demo_engine (Symbol ''y'') (BinOp (Name ''y'') PowOp (Constant (IntC 3)))
          = Inr d
        \<and> Assign [Name ''y''] d 1 \<in> set (module_stmts (Module [Assign [Name ''y'']
            (BinOp (Constant (IntC 3)) Mult (BinOp (Name ''y'') PowOp (Constant (IntC 2)))) 1])))
   \<and> Assign [Name ''y''] (BinOp (Name ''y'') PowOp (Constant (IntC 3))) 1
       \<in> set (module_stmts (Module [Assign [Name ''y'']
            (BinOp (Name ''y'') PowOp (Constant (IntC 3))) 1]))"
proof -
  let ?tree = "Module [Assign [Name ''y''] (BinOp (Name ''y'') PowOp (Constant (IntC 3))) 1]"
  have mem: "Assign [Name ''y''] (BinOp (Name ''y'') PowOp (Constant (IntC 3))) 1
      \<in> set (module_stmts ?tree)"
    by (simp add: module_stmts_def)
  have sel: "''y'' \<in> {''y''}" and pass: "({} :: int set) = {} \<or> 1 \<in> ({} :: int set)"
    by simp_all
  have differentiated: "calculus_pass demo_engine {''y''} {} {} ?tree
      = Inr (Module [Assign [Name ''y'']
          (BinOp (Constant (IntC 3)) Mult (BinOp (Name ''y'') PowOp (Constant (IntC 2)))) 1])"
    by (simp add: calculus_pass_def visit_Assign_def demo_defs dec.simps)
  have raised: "calculus_pass demo_engine {} {''y''} {} ?tree = Inl ValueError"
    by (simp add: calculus_pass_def visit_Assign_def demo_defs dec.simps)
  have held: "calculus_pass demo_engine {} {''y''} {2} ?tree = Inr ?tree"
    by (simp add: calculus_pass_def visit_Assign_def demo_defs)
  have blocked: "\<not> ({2} = ({} :: int set) \<or> 1 \<in> ({2} :: int set))"
    by simp
  note inst = line_filter_integration_raises [OF demo_sympy_variables mem]
  from inst [THEN conjunct1, rule_format, OF sel pass]
    inst [THEN conjunct2, rule_format, OF differentiated, THEN conjunct1, rule_format, OF sel pass]
    inst [THEN conjunct2, rule_format, OF held, THEN conjunct2, rule_format, OF blocked]
    raised held
  show ?thesis
    by blast
qed


section \<open>Properties of parse_line_set\<close>

text \<open>Decimal numerals are read back by \<open>py_int\<close>, and are untouched by \<open>strip\<close> and by
  the white space of \<^verbatim>\<open>int\<close>.\<close>

lemma digit_cases:
  "d < (10::nat) \<Longrightarrow>
   d = 0 \<or> d = 1 \<or> d = 2 \<or> d = 3 \<or> d = 4 \<or> d = 5 \<or> d = 6 \<or> d = 7 \<or> d = 8 \<or> d = 9"
  by arith

lemma digit_char:
  assumes "d < 10"
  shows "is_digit (''0123456789'' ! d)" and "digit_val (''0123456789'' ! d) = d"
    and "\<not> py_isspace (''0123456789'' ! d)"
    and "''0123456789'' ! d \<noteq> CHR '',''" and "''0123456789'' ! d \<noteq> CHR ''-''"
    and "''0123456789'' ! d \<noteq> CHR ''+''" and "''0123456789'' ! d \<noteq> CHR ''_''"
  using digit_cases [OF assms]
  by (auto simp: is_digit_def digit_val_def py_isspace_def)

lemma is_digit_not_special:
  assumes "is_digit c"
  shows "\<not> py_isspace c" and "c \<noteq> CHR '',''" and "c \<noteq> CHR ''-''" and "c \<noteq> CHR ''+''"
  using assms by (auto simp: is_digit_def py_isspace_def)

lemma dec_digits: "dec n \<noteq> [] \<and> (\<forall>c \<in> set (dec n). is_digit c)"
proof (induction n rule: dec.induct)
  case (1 n)
  show ?case
  proof (cases "n < 10")
    case True
    then show ?thesis
      by (subst (1 2) dec.simps) (simp add: digit_char)
  next
    case False
    with 1 show ?thesis
      by (subst (1 2) dec.simps) (simp add: digit_char)
  qed
qed

lemma digits_from_all_digits:
  "\<forall>c \<in> set cs. is_digit c \<Longrightarrow>
   digits_from acc cs = Some (foldl (\<lambda>a c. 10 * a + digit_val c) acc cs)"
  by (induction acc cs rule: digits_from.induct) simp_all

lemma py_digits_all_digits:
  assumes "cs \<noteq> []" and "\<forall>c \<in> set cs. is_digit c"
  shows "py_digits cs = Some (foldl (\<lambda>a c. 10 * a + digit_val c) 0 cs)"
  using assms by (cases cs) (simp_all add: digits_from_all_digits)

lemma foldl_dec: "foldl (\<lambda>a c. 10 * a + digit_val c) 0 (dec n) = n"
proof (induction n rule: dec.induct)
  case (1 n)
  show ?case
  proof (cases "n < 10")
    case True
    then show ?thesis
      by (subst dec.simps) (simp add: digit_char)
  next
    case False
    with 1 show ?thesis
      by (subst dec.simps) (simp add: digit_char)
  qed
qed

lemma py_digits_dec: "py_digits (dec n) = Some n"
  using dec_digits [of n] by (simp add: py_digits_all_digits foldl_dec)

lemma strip_unchanged:
  assumes "s \<noteq> []" and "\<not> py_isspace (hd s)" and "\<not> py_isspace (last s)"
  shows "strip s = s"
proof -
  from assms(1,2) have 1: "dropWhile py_isspace s = s"
    by (cases s) simp_all
  from assms(1,3) have 2: "dropWhile py_isspace (rev s) = rev s"
    by (cases "rev s") (simp_all add: hd_rev [symmetric])
  from 1 2 show ?thesis
    by (simp add: strip_def)
qed

lemma int_strip_unchanged:
  assumes "s \<noteq> []" and "\<not> py_isspace (hd s)" and "\<not> py_isspace (last s)"
  shows "int_strip s = s"
proof -
  have weaker: "\<not> int_isspace c" if "\<not> py_isspace c" for c
    using that by (auto simp: int_isspace_def py_isspace_def)
  from assms(1,2) have 1: "dropWhile int_isspace s = s"
    by (cases s) (simp_all add: weaker)
  from assms(1,3) have 2: "dropWhile int_isspace (rev s) = rev s"
    by (cases "rev s") (simp_all add: hd_rev [symmetric] weaker)
  from 1 2 show ?thesis
    by (simp add: int_strip_def)
qed

lemma dec_ends:
  "\<not> py_isspace (hd (dec n))" "\<not> py_isspace (last (dec n))"
  "hd (dec n) \<noteq> CHR ''-''" "hd (dec n) \<noteq> CHR ''+''" "is_digit (hd (dec n))"
  using dec_digits [of n] by (auto simp: is_digit_not_special)

lemma strip_dec: "strip (dec n) = dec n"
  using dec_digits [of n] by (simp add: strip_unchanged dec_ends)

lemma int_strip_dec: "int_strip (dec n) = dec n"
  using dec_digits [of n] by (simp add: int_strip_unchanged dec_ends)

lemma py_int_dec: "py_int (dec n) = Inr (int n)"
proof -
  obtain c cs where d: "dec n = c # cs"
    using dec_digits [of n] by (cases "dec n") auto
  with dec_ends(3,4) [of n] have "c \<noteq> CHR ''-''" "c \<noteq> CHR ''+''"
    by simp_all
  moreover have "int_strip (c # cs) = c # cs" and "py_digits (c # cs) = Some n"
    using int_strip_dec [of n] py_digits_dec [of n] by (simp_all only: d)
  ultimately show ?thesis
    by (simp add: py_int_def d del: py_digits.simps)
qed

lemma split_no_sep: "sep \<notin> set xs \<Longrightarrow> split sep xs = [xs]"
  by (induction xs) auto

lemma split_at_sep: "sep \<notin> set xs \<Longrightarrow> split sep (xs @ sep # ys) = xs # split sep ys"
  by (induction xs) auto

lemma dec_no_comma: "CHR '','' \<notin> set (dec n)"
  using dec_digits [of n] is_digit_not_special(2) by blast

lemma dec_no_minus: "CHR ''-'' \<notin> set (dec n)"
  using dec_digits [of n] is_digit_not_special(3) by blast

lemma item_text_no_comma: "CHR '','' \<notin> set (item_text i)"
  by (cases i) (simp_all add: dec_no_comma)

lemma split_spec_text:
  "items \<noteq> [] \<Longrightarrow> split CHR '','' (spec_text items) = map item_text items"
proof (induction items rule: spec_text.induct)
  case 1
  then show ?case by simp
next
  case (2 i)
  then show ?case
    by (simp add: split_no_sep item_text_no_comma)
next
  case (3 i j js)
  have "split CHR '','' (item_text i @ CHR '','' # spec_text (j # js))
      = item_text i # split CHR '','' (spec_text (j # js))"
    by (rule split_at_sep) (rule item_text_no_comma)
  with 3 show ?case
    by simp
qed

lemma split_once_range: "split_once CHR ''-'' (dec a @ CHR ''-'' # dec b) = (dec a, dec b)"
  using dec_no_minus [of a] by (simp add: split_once_def takeWhile_append dropWhile_append)

lemma strip_range: "strip (dec a @ CHR ''-'' # dec b) = dec a @ CHR ''-'' # dec b"
proof (rule strip_unchanged)
  show "dec a @ CHR ''-'' # dec b \<noteq> []"
    by simp
  show "\<not> py_isspace (hd (dec a @ CHR ''-'' # dec b))"
    using dec_digits [of a] by (simp add: dec_ends)
  show "\<not> py_isspace (last (dec a @ CHR ''-'' # dec b))"
    using dec_digits [of b] by (simp add: dec_ends)
qed

lemma parse_parts_Single:
  "parse_parts (dec n # ps) lines = parse_parts ps (insert (int n) lines)"
  using dec_digits [of n]
  by (simp add: strip_dec dec_no_minus py_int_dec bind_result_Inr)

lemma parse_parts_Range:
  "parse_parts ((dec a @ CHR ''-'' # dec b) # ps) lines = parse_parts ps (lines \<union> {int a..int b})"
  by (simp add: strip_range split_once_range py_int_dec bind_result_Inr)

lemma parse_parts_items:
  "parse_parts (map item_text items) lines = Inr (lines \<union> spec_lines items)"
proof (induction items arbitrary: lines)
  case Nil
  then show ?case
    by (simp add: spec_lines_def)
next
  case (Cons i items)
  show ?case
  proof (cases i)
    case (Single n)
    with Cons [of "insert (int n) lines"] show ?thesis
      by (simp add: parse_parts_Single spec_lines_def del: parse_parts.simps(2))
  next
    case (Range a b)
    with Cons [of "lines \<union> {int a..int b}"] show ?thesis
      by (simp add: parse_parts_Range spec_lines_def Un_assoc del: parse_parts.simps(2))
  qed
qed

text \<open>
  Claim C9. \<open>parse_line_set\<close> maps \<^verbatim>\<open>2,5-7\<close> to \<open>{2, 5, 6, 7}\<close> and the empty text to
  the empty set; a range \<^verbatim>\<open>a-b\<close> gives every integer from \<open>a\<close> to \<open>b\<close>; and every
  comma-separated list of numbers and ranges gives the union of what its items
  stand for. No input of these forms raises.
\<close>

theorem parse_line_set_correct:
  "parse_line_set ''2,5-7'' = Inr {2, 5, 6, 7}
   \<and> parse_line_set '''' = Inr {}
   \<and> parse_line_set (dec a @ ''-'' @ dec b) = Inr {int a..int b}
   \<and> parse_line_set (spec_text items) = Inr (spec_lines items)"
proof (intro conjI)
  have "{5..7} = {5, 6, 7 :: int}"
    by auto
  then show "parse_line_set ''2,5-7'' = Inr {2, 5, 6, 7}"
    by (simp add: parse_line_set_def strip_def py_isspace_def int_strip_def int_isspace_def
      py_int_def is_digit_def digit_val_def split_once_def bind_result_def Let_def)
next
  show "parse_line_set '''' = Inr {}"
    by (simp add: parse_line_set_def strip_def)
next
  have "split CHR '','' (dec a @ CHR ''-'' # dec b) = [dec a @ CHR ''-'' # dec b]"
    by (rule split_no_sep) (simp add: dec_no_comma)
  then show "parse_line_set (dec a @ ''-'' @ dec b) = Inr {int a..int b}"
    by (simp add: parse_line_set_def parse_parts_Range del: parse_parts.simps(2))
next
  show "parse_line_set (spec_text items) = Inr (spec_lines items)"
  proof (cases "items = []")
    case True
    then show ?thesis
      by (simp add: parse_line_set_def strip_def spec_lines_def)
  next
    case False
    with parse_parts_items [of items "{}"] show ?thesis
      by (simp add: parse_line_set_def split_spec_text)
  qed
qed

text \<open>The specification \<^verbatim>\<open>12,5-7\<close>, as the list of the item 12 and the range 5 to 7.\<close>

theorem parse_line_set_correct_witness:
  "parse_line_set ''12,5-7'' = Inr ({12} \<union> {5..7})"
  using parse_line_set_correct [of 0 0 "[Single 12, Range 5 7]", THEN conjunct2, THEN conjunct2,
      THEN conjunct2]
  by (simp add: spec_lines_def dec.simps)

section \<open>Running the optimizer twice\<close>

lemma binops_readable_append [simp]:
  "binops_readable E (xs @ ys) \<longleftrightarrow> binops_readable E xs \<and> binops_readable E ys"
  by (auto simp: binops_readable_def)

lemma binops_readable_Nil [simp]: "binops_readable E []"
  by (simp add: binops_readable_def)

lemma binops_readable_Cons:
  "binops_readable E (n # ns) \<longleftrightarrow>
     (is_BinOp n \<longrightarrow> (\<exists>t. symbolic_value E n = Inr t)) \<and> binops_readable E ns"
  by (auto simp: binops_readable_def)

lemma optimize_node_equivalent:
  assumes laws: "engine_laws E eqv"
    and val: "symbolic_value E node = Inr s"
  shows "\<exists>new t. optimize_node E x node = Inr new \<and> symbolic_value E new = Inr t \<and> eqv s t"
proof -
  from laws have eq: "equivp eqv"
    by (simp add: engine_laws_def)
  from laws obtain a where a: "simplify E s = Inr a" "eqv s a"
    unfolding engine_laws_def by blast
  from laws obtain b where b: "factor E a = Inr b" "eqv a b"
    unfolding engine_laws_def by blast
  obtain c where c: "(if x then expand E b else Inr b) = Inr c" "eqv b c"
  proof (cases x)
    case True
    from laws obtain c where "expand E b = Inr c" "eqv b c"
      unfolding engine_laws_def by blast
    with True that show ?thesis by simp
  next
    case False
    with eq that [of b] show ?thesis
      by (simp add: equivp_reflp)
  qed
  from laws obtain new t where n: "parse_value E (str E c) = Inr new"
    "symbolic_value E new = Inr t" "eqv c t"
    unfolding engine_laws_def by blast
  from a b c n val have "optimize_node E x node = Inr new"
    by (simp add: optimize_node_def symbolic_value_def bind_result_Inr del: if_split)
  moreover from eq a(2) b(2) c(2) n(3) have "eqv s t"
    by (meson equivp_transp)
  ultimately show ?thesis
    using n(2) by blast
qed

lemma visit_readable:
  "engine_laws E eqv \<Longrightarrow> binops_readable E (expr_nodes q) \<Longrightarrow>
     \<exists>q'. Transformer_visit E x q = Inr q' \<and> equivalent E eqv q q'"
  "engine_laws E eqv \<Longrightarrow> binops_readable E (concat (map expr_nodes qs)) \<Longrightarrow>
     \<exists>qs'. Transformer_visit_list E x qs = Inr qs' \<and> list_all2 (equivalent E eqv) qs qs'"
proof (induction E x q and E x qs rule: Transformer_visit_Transformer_visit_list.induct)
  case (1 E x l op r)
  from "1.prems"(2) obtain s where s: "symbolic_value E (BinOp l op r) = Inr s"
    and bl: "binops_readable E (expr_nodes l)" and br: "binops_readable E (expr_nodes r)"
    by (auto simp: binops_readable_Cons)
  from "1.IH"(1) [OF "1.prems"(1) bl] obtain l' where l: "Transformer_visit E x l = Inr l'"
    "equivalent E eqv l l'" by blast
  from "1.IH"(2) [OF l(1) "1.prems"(1) br] obtain r' where r: "Transformer_visit E x r = Inr r'"
    "equivalent E eqv r r'" by blast
  from l(2) r(2) have "equivalent E eqv (BinOp l op r) (BinOp l' op r')"
    by (rule eq_BinOp)
  with "1.prems"(1) s obtain s' where s': "symbolic_value E (BinOp l' op r') = Inr s'" "eqv s s'"
    unfolding engine_laws_def by blast
  from optimize_node_equivalent [OF "1.prems"(1) s'(1), of x] obtain new t
    where n: "optimize_node E x (BinOp l' op r') = Inr new" "symbolic_value E new = Inr t" "eqv s' t"
    by blast
  from "1.prems"(1) s'(2) n(3) have "eqv s t"
    unfolding engine_laws_def by (meson equivp_transp)
  with s n(2) have "equivalent E eqv (BinOp l op r) new"
    by (rule eq_value)
  with l(1) r(1) n(1) show ?case
    by (simp add: bind_result_Inr)
next
  case (2 E x c)
  then show ?case by (simp add: eq_Constant)
next
  case (3 E x n)
  then show ?case by (simp add: eq_Name)
next
  case (4 E x op e)
  from "4.prems"(2) have "binops_readable E (expr_nodes e)"
    by (simp add: binops_readable_Cons)
  from "4.IH" [OF "4.prems"(1) this] obtain e' where "Transformer_visit E x e = Inr e'"
    "equivalent E eqv e e'" by blast
  then show ?case
    by (simp add: bind_result_Inr eq_UnaryOp)
next
  case (5 E x op es)
  from "5.prems"(2) have "binops_readable E (concat (map expr_nodes es))"
    by (simp add: binops_readable_Cons)
  from "5.IH" [OF "5.prems"(1) this] obtain es' where "Transformer_visit_list E x es = Inr es'"
    "list_all2 (equivalent E eqv) es es'" by blast
  then show ?case
    by (simp add: bind_result_Inr eq_BoolOp)
next
  case (6 E x l ops es)
  from "6.prems"(2) have bl: "binops_readable E (expr_nodes l)"
    and bes: "binops_readable E (concat (map expr_nodes es))"
    by (simp_all add: binops_readable_Cons)
  from "6.IH"(1) [OF "6.prems"(1) bl] obtain l' where l: "Transformer_visit E x l = Inr l'"
    "equivalent E eqv l l'" by blast
  from "6.IH"(2) [OF l(1) "6.prems"(1) bes] obtain es' where "Transformer_visit_list E x es = Inr es'"
    "list_all2 (equivalent E eqv) es es'" by blast
  with l show ?case
    by (simp add: bind_result_Inr eq_Compare)
next
  case (7 E x f args)
  from "7.prems"(2) have bf: "binops_readable E (expr_nodes f)"
    and bargs: "binops_readable E (concat (map expr_nodes args))"
    by (simp_all add: binops_readable_Cons)
  from "7.IH"(1) [OF "7.prems"(1) bf] obtain f' where f: "Transformer_visit E x f = Inr f'"
    "equivalent E eqv f f'" by blast
  from "7.IH"(2) [OF f(1) "7.prems"(1) bargs] obtain args'
    where "Transformer_visit_list E x args = Inr args'"
    "list_all2 (equivalent E eqv) args args'" by blast
  with f show ?case
    by (simp add: bind_result_Inr eq_Call)
next
  case (8 E x e a)
  from "8.prems"(2) have "binops_readable E (expr_nodes e)"
    by (simp add: binops_readable_Cons)
  from "8.IH" [OF "8.prems"(1) this] obtain e' where "Transformer_visit E x e = Inr e'"
    "equivalent E eqv e e'" by blast
  then show ?case
    by (simp add: bind_result_Inr eq_Attribute)
next
  case (9 E x e i)
  from "9.prems"(2) have be: "binops_readable E (expr_nodes e)"
    and bi: "binops_readable E (expr_nodes i)"
    by (simp_all add: binops_readable_Cons)
  from "9.IH"(1) [OF "9.prems"(1) be] obtain e' where e: "Transformer_visit E x e = Inr e'"
    "equivalent E eqv e e'" by blast
  from "9.IH"(2) [OF e(1) "9.prems"(1) bi] obtain i' where "Transformer_visit E x i = Inr i'"
    "equivalent E eqv i i'" by blast
  with e show ?case
    by (simp add: bind_result_Inr eq_Subscript)
next
  case (10 E x es)
  from "10.prems"(2) have "binops_readable E (concat (map expr_nodes es))"
    by (simp add: binops_readable_Cons)
  from "10.IH" [OF "10.prems"(1) this] obtain es' where "Transformer_visit_list E x es = Inr es'"
    "list_all2 (equivalent E eqv) es es'" by blast
  then show ?case
    by (simp add: bind_result_Inr eq_Tuple)
next
  case (11 E x)
  then show ?case by simp
next
  case (12 E x e es)
  from "12.prems"(2) have be: "binops_readable E (expr_nodes e)"
    and bes: "binops_readable E (concat (map expr_nodes es))"
    by simp_all
  from "12.IH"(1) [OF "12.prems"(1) be] obtain e' where e: "Transformer_visit E x e = Inr e'"
    "equivalent E eqv e e'" by blast
  from "12.IH"(2) [OF e(1) "12.prems"(1) bes] obtain es' where "Transformer_visit_list E x es = Inr es'"
    "list_all2 (equivalent E eqv) es es'" by blast
  with e show ?case
    by (simp add: bind_result_Inr)
qed

lemma visit_stmt_readable:
  "engine_laws E eqv \<Longrightarrow> binops_readable E (stmt_nodes s) \<Longrightarrow>
     \<exists>s'. Transformer_visit_stmt E x s = Inr s' \<and> equivalent_stmt E eqv s s'"
  "engine_laws E eqv \<Longrightarrow> binops_readable E (concat (map stmt_nodes ss)) \<Longrightarrow>
     \<exists>ss'. Transformer_visit_stmts E x ss = Inr ss' \<and> list_all2 (equivalent_stmt E eqv) ss ss'"
proof (induction E x s and E x ss rule: Transformer_visit_stmt_Transformer_visit_stmts.induct)
  case (1 E x ts v lineno)
  from "1.prems"(2) have "binops_readable E (concat (map expr_nodes ts))"
    and "binops_readable E (expr_nodes v)"
    by simp_all
  with "1.prems"(1) obtain ts' v' where "Transformer_visit_list E x ts = Inr ts'"
    "list_all2 (equivalent E eqv) ts ts'" "Transformer_visit E x v = Inr v'" "equivalent E eqv v v'"
    using visit_readable by blast
  then show ?case
    by (simp add: bind_result_Inr eq_Assign)
next
  case (2 E x t op v)
  from "2.prems"(2) have "binops_readable E (expr_nodes t)" and "binops_readable E (expr_nodes v)"
    by simp_all
  with "2.prems"(1) obtain t' v' where "Transformer_visit E x t = Inr t'"
    "equivalent E eqv t t'" "Transformer_visit E x v = Inr v'" "equivalent E eqv v v'"
    using visit_readable(1) by blast
  then show ?case
    by (simp add: bind_result_Inr eq_AugAssign)
next
  case (3 E x v)
  from "3.prems" obtain v' where "Transformer_visit E x v = Inr v'" "equivalent E eqv v v'"
    using visit_readable(1) by fastforce
  then show ?case
    by (simp add: bind_result_Inr eq_Expr)
next
  case (4 E x c ss els)
  from "4.prems"(2) have bc: "binops_readable E (expr_nodes c)"
    and bss: "binops_readable E (concat (map stmt_nodes ss))"
    and bels: "binops_readable E (concat (map stmt_nodes els))"
    by simp_all
  from visit_readable(1) [OF "4.prems"(1) bc] obtain c' where c: "Transformer_visit E x c = Inr c'"
    "equivalent E eqv c c'" by blast
  from "4.IH"(1) [OF c(1) "4.prems"(1) bss] obtain ss' where ss: "Transformer_visit_stmts E x ss = Inr ss'"
    "list_all2 (equivalent_stmt E eqv) ss ss'" by blast
  from "4.IH"(2) [OF c(1) ss(1) "4.prems"(1) bels] obtain els'
    where "Transformer_visit_stmts E x els = Inr els'"
    "list_all2 (equivalent_stmt E eqv) els els'" by blast
  with c ss show ?case
    by (simp add: bind_result_Inr eq_IfStmt)
next
  case (5 E x c ss els)
  from "5.prems"(2) have bc: "binops_readable E (expr_nodes c)"
    and bss: "binops_readable E (concat (map stmt_nodes ss))"
    and bels: "binops_readable E (concat (map stmt_nodes els))"
    by simp_all
  from visit_readable(1) [OF "5.prems"(1) bc] obtain c' where c: "Transformer_visit E x c = Inr c'"
    "equivalent E eqv c c'" by blast
  from "5.IH"(1) [OF c(1) "5.prems"(1) bss] obtain ss' where ss: "Transformer_visit_stmts E x ss = Inr ss'"
    "list_all2 (equivalent_stmt E eqv) ss ss'" by blast
  from "5.IH"(2) [OF c(1) ss(1) "5.prems"(1) bels] obtain els'
    where "Transformer_visit_stmts E x els = Inr els'"
    "list_all2 (equivalent_stmt E eqv) els els'" by blast
  with c ss show ?case
    by (simp add: bind_result_Inr eq_While)
next
  case (6 E x t it ss els)
  from "6.prems"(2) have bt: "binops_readable E (expr_nodes t)"
    and bit: "binops_readable E (expr_nodes it)"
    and bss: "binops_readable E (concat (map stmt_nodes ss))"
    and bels: "binops_readable E (concat (map stmt_nodes els))"
    by simp_all
  from visit_readable(1) [OF "6.prems"(1) bt] obtain t' where t: "Transformer_visit E x t = Inr t'"
    "equivalent E eqv t t'" by blast
  from visit_readable(1) [OF "6.prems"(1) bit] obtain it' where it: "Transformer_visit E x it = Inr it'"
    "equivalent E eqv it it'" by blast
  from "6.IH"(1) [OF t(1) it(1) "6.prems"(1) bss] obtain ss'
    where ss: "Transformer_visit_stmts E x ss = Inr ss'"
    "list_all2 (equivalent_stmt E eqv) ss ss'" by blast
  from "6.IH"(2) [OF t(1) it(1) ss(1) "6.prems"(1) bels] obtain els'
    where "Transformer_visit_stmts E x els = Inr els'"
    "list_all2 (equivalent_stmt E eqv) els els'" by blast
  with t it ss show ?case
    by (simp add: bind_result_Inr eq_For)
next
  case (7 E x f ps ss)
  from "7.prems"(2) have "binops_readable E (concat (map stmt_nodes ss))"
    by simp
  from "7.IH" [OF "7.prems"(1) this] obtain ss' where "Transformer_visit_stmts E x ss = Inr ss'"
    "list_all2 (equivalent_stmt E eqv) ss ss'" by blast
  then show ?case
    by (simp add: bind_result_Inr eq_FunctionDef)
next
  case (8 E x)
  then show ?case by (simp add: eq_Pass)
next
  case (9 E x)
  then show ?case by simp
next
  case (10 E x s ss)
  from "10.prems"(2) have bs: "binops_readable E (stmt_nodes s)"
    and bss: "binops_readable E (concat (map stmt_nodes ss))"
    by simp_all
  from "10.IH"(1) [OF "10.prems"(1) bs] obtain s' where s: "Transformer_visit_stmt E x s = Inr s'"
    "equivalent_stmt E eqv s s'" by blast
  from "10.IH"(2) [OF s(1) "10.prems"(1) bss] obtain ss'
    where "Transformer_visit_stmts E x ss = Inr ss'"
    "list_all2 (equivalent_stmt E eqv) ss ss'" by blast
  with s show ?case
    by (simp add: bind_result_Inr)
qed

lemma readable_list:
  "list_all2 (\<lambda>a b. P a b \<and> binops_readable E (expr_nodes b)) es es' \<Longrightarrow>
   binops_readable E (concat (map expr_nodes es'))"
  by (induction es es' rule: list_all2_induct) simp_all

lemma bottom_up_readable:
  assumes laws: "engine_laws E eqv"
  shows "bottom_up E x e e' \<Longrightarrow> binops_readable E (expr_nodes e')"
proof (induction rule: bottom_up.induct)
  case (rw_BinOp l l' r r' op parsed simplified factored final new)
  from laws obtain e t where "parse_value E (str E final) = Inr e" "symbolic_value E e = Inr t"
    unfolding engine_laws_def by blast
  with rw_BinOp.hyps have "symbolic_value E new = Inr t"
    by simp
  with laws show ?case
    unfolding engine_laws_def binops_readable_def by blast
qed (simp_all add: binops_readable_Cons readable_list)

lemma readable_stmt_list:
  "list_all2 (\<lambda>a b. P a b \<and> binops_readable E (stmt_nodes b)) ss ss' \<Longrightarrow>
   binops_readable E (concat (map stmt_nodes ss'))"
  by (induction ss ss' rule: list_all2_induct) simp_all

lemma bottom_up_list_readable:
  assumes "engine_laws E eqv" and "list_all2 (bottom_up E x) es es'"
  shows "binops_readable E (concat (map expr_nodes es'))"
  using assms(2)
  by (induction es es' rule: list_all2_induct) (simp_all add: bottom_up_readable [OF assms(1)])

lemma bottom_up_stmt_readable:
  assumes laws: "engine_laws E eqv"
  shows "bottom_up_stmt E x s s' \<Longrightarrow> binops_readable E (stmt_nodes s')"
  by (induction rule: bottom_up_stmt.induct)
     (simp_all add: bottom_up_readable [OF laws] bottom_up_list_readable [OF laws]
        readable_stmt_list)

subsection \<open>The engine of linear polynomials\<close>

lemma is_digit_not_token:
  assumes "is_digit c"
  shows "c \<noteq> CHR ''(''" "c \<noteq> CHR '')''" "c \<noteq> CHR '' ''" "c \<noteq> CHR ''+''" "c \<noteq> CHR ''*''"
    "c \<noteq> CHR ''x''"
  using assms by (auto simp: is_digit_def)

lemma linear_read_digit:
  "is_digit c \<Longrightarrow> linear_read (c # cs) st = linear_read cs (push_digit (digit_val c) st)"
  by (simp add: is_digit_not_token)

lemma linear_read_digits:
  "\<forall>c \<in> set ds. is_digit c \<Longrightarrow>
   linear_read (ds @ rest) (Val (Constant (IntC (int a))) # st) =
   linear_read rest (Val (Constant (IntC (int (foldl (\<lambda>a c. 10 * a + digit_val c) a ds)))) # st)"
proof (induction ds arbitrary: a)
  case Nil
  then show ?case
    by simp
next
  case (Cons d ds)
  have "linear_read ((d # ds) @ rest) (Val (Constant (IntC (int a))) # st) =
      linear_read (ds @ rest) (Val (Constant (IntC (int (10 * a + digit_val d)))) # st)"
    using Cons.prems by (simp add: linear_read_digit del: linear_read.simps)
  with Cons.IH [of "10 * a + digit_val d"] Cons.prems show ?case
    by simp
qed

lemma push_digit_ready:
  "awaits_operand st \<Longrightarrow> push_digit d st = Val (Constant (IntC (int d))) # st"
  by (induction d st rule: push_digit.induct) simp_all

lemma linear_read_dec:
  assumes ready: "awaits_operand st"
  shows "linear_read (dec n @ rest) st = linear_read rest (Val (Constant (IntC (int n))) # st)"
proof -
  obtain d ds where d: "dec n = d # ds"
    using dec_digits [of n] by (cases "dec n") auto
  with dec_digits [of n] have digits: "is_digit d" "\<forall>c \<in> set ds. is_digit c"
    by simp_all
  from foldl_dec [of n] d have n: "foldl (\<lambda>a c. 10 * a + digit_val c) (digit_val d) ds = n"
    by simp
  have "linear_read (dec n @ rest) st =
      linear_read (ds @ rest) (Val (Constant (IntC (int (digit_val d)))) # st)"
    using digits(1) ready by (simp add: d linear_read_digit push_digit_ready del: linear_read.simps)
  also have "\<dots> = linear_read rest (Val (Constant (IntC (int n))) # st)"
    using linear_read_digits [OF digits(2)] n by simp
  finally show ?thesis .
qed

lemma linear_read_unparse:
  "linear_syntax e \<Longrightarrow> awaits_operand st \<Longrightarrow>
   linear_read (linear_unparse e @ rest) st = linear_read rest (Val e # st)"
proof (induction e arbitrary: st rest)
  case (Constant c)
  then show ?case
    by (cases c) (simp_all add: linear_read_dec del: linear_read.simps)
next
  case (Name v)
  then show ?case
    by simp
next
  case (BinOp l op r)
  from BinOp.prems(1) have l: "linear_syntax l" and r: "linear_syntax r"
    and op: "op = Add \<or> op = Mult"
    by simp_all
  have "linear_read (linear_unparse (BinOp l op r) @ rest) st =
      linear_read (linear_unparse l @ '' '' @ operator_text op @ '' '' @ linear_unparse r @ '')'' @ rest)
        (Open # st)"
    using op by auto
  also have "\<dots> = linear_read ('' '' @ operator_text op @ '' '' @ linear_unparse r @ '')'' @ rest)
      (Val l # Open # st)"
    by (rule BinOp.IH(1) [OF l]) simp
  also have "\<dots> = linear_read (linear_unparse r @ '')'' @ rest) (Op op # Val l # Open # st)"
    using op by auto
  also have "\<dots> = linear_read ('')'' @ rest) (Val r # Op op # Val l # Open # st)"
    by (rule BinOp.IH(2) [OF r]) simp
  also have "\<dots> = linear_read rest (Val (BinOp l op r) # st)"
    by simp
  finally show ?case .
qed simp_all

lemma linear_read_question_mark: "linear_read (CHR ''?'' # rest) st = None"
  by (simp add: is_digit_def)

lemma linear_read_other:
  "\<not> linear_syntax e \<Longrightarrow> awaits_operand st \<Longrightarrow>
   linear_read (linear_unparse e @ rest) st = None"
proof (induction e arbitrary: st rest)
  case (Constant c)
  then show ?case
    by (cases c) (simp_all add: linear_read_question_mark del: linear_read.simps)
next
  case (Name v)
  then show ?case
    by (simp add: linear_read_question_mark del: linear_read.simps)
next
  case (BinOp l op r)
  show ?case
  proof (cases "op = Add \<or> op = Mult")
    case False
    then show ?thesis
      by (simp add: linear_read_question_mark del: linear_read.simps)
  next
    case op: True
    then have start: "linear_read (linear_unparse (BinOp l op r) @ rest) st =
        linear_read (linear_unparse l @ '' '' @ operator_text op @ '' '' @ linear_unparse r @ '')'' @ rest)
          (Open # st)"
      by auto
    show ?thesis
    proof (cases "linear_syntax l")
      case False
      have "linear_read (linear_unparse l @ '' '' @ operator_text op @ '' '' @ linear_unparse r @ '')'' @ rest)
          (Open # st) = None"
        by (rule BinOp.IH(1) [OF False]) simp
      with start show ?thesis
        by simp
    next
      case True
      with BinOp.prems(1) op have r: "\<not> linear_syntax r"
        by simp
      have "linear_read (linear_unparse l @ '' '' @ operator_text op @ '' '' @ linear_unparse r @ '')'' @ rest)
          (Open # st) =
        linear_read ('' '' @ operator_text op @ '' '' @ linear_unparse r @ '')'' @ rest)
          (Val l # Open # st)"
        by (rule linear_read_unparse [OF True]) simp
      also have "\<dots> = linear_read (linear_unparse r @ '')'' @ rest) (Op op # Val l # Open # st)"
        using op by auto
      also have "\<dots> = None"
        by (rule BinOp.IH(2) [OF r]) simp
      finally show ?thesis
        using start by simp
    qed
  qed
qed (simp_all add: linear_read_question_mark del: linear_read.simps)

lemma linear_value_syntax: "linear_value e = Some s \<Longrightarrow> linear_syntax e"
  by (induction e arbitrary: s rule: linear_value.induct)
     (auto split: option.splits if_splits)

lemma linear_symbolic_value:
  "symbolic_value linear_engine e =
     (case linear_value e of None \<Rightarrow> Inl SympifyError | Some s \<Rightarrow> Inr s)"
proof (cases "linear_syntax e")
  case True
  from linear_read_unparse [OF True, of "[]" "[]"] have "linear_read (linear_unparse e) [] = Some e"
    by simp
  then show ?thesis
    by (simp add: symbolic_value_def linear_engine_def linear_sympify_def)
next
  case False
  from linear_read_other [OF False, of "[]" "[]"] have "linear_read (linear_unparse e) [] = None"
    by simp
  moreover from False linear_value_syntax have "linear_value e = None"
    by (cases "linear_value e") auto
  ultimately show ?thesis
    by (simp add: symbolic_value_def linear_engine_def linear_sympify_def)
qed

lemma linear_form_value: "linear_value (linear_form s) = Some s"
  by (cases s) (simp add: linear_form_def linear_term_def)

lemma linear_parse_value:
  "parse_value linear_engine (str linear_engine s) = Inr (linear_form s)"
proof -
  from linear_value_syntax [OF linear_form_value]
  have "linear_read (linear_unparse (linear_form s) @ []) [] = linear_read [] [Val (linear_form s)]"
    by (rule linear_read_unparse) simp
  then show ?thesis
    by (simp add: parse_value_def linear_engine_def linear_parse_def bind_result_Inr)
qed

lemma linear_optimize_node:
  "linear_value e = Some s \<Longrightarrow> optimize_node linear_engine x e = Inr (linear_form s)"
  using linear_symbolic_value [of e] linear_parse_value [of s]
  by (simp add: optimize_node_def symbolic_value_def bind_result_Inr)
     (simp add: linear_engine_def bind_result_Inr)

lemma equivalent_linear_value:
  "equivalent linear_engine (=) e e' \<Longrightarrow> linear_value e = Some s \<Longrightarrow> linear_value e' = Some s"
proof (induction arbitrary: s rule: equivalent.induct)
  case (eq_value e t e' t')
  then show ?case
    by (simp add: linear_symbolic_value split: option.splits)
next
  case (eq_BinOp l l' r r' op)
  from eq_BinOp.prems obtain sl sr where "linear_value l = Some sl" "linear_value r = Some sr"
    by (auto split: option.splits)
  with eq_BinOp.IH(1) [of sl] eq_BinOp.IH(2) [of sr] eq_BinOp.prems show ?case
    by simp
qed simp_all

lemma linear_value_nodes:
  "linear_value e = Some s \<Longrightarrow> n \<in> set (expr_nodes e) \<Longrightarrow> \<exists>t. linear_value n = Some t"
proof (induction e arbitrary: s)
  case (BinOp l op r)
  from BinOp.prems(1) obtain sl sr where "linear_value l = Some sl" "linear_value r = Some sr"
    by (auto split: option.splits)
  with BinOp show ?case
    by auto
qed auto

lemma linear_engine_laws: "engine_laws linear_engine (=)"
  unfolding engine_laws_def
proof (intro conjI allI impI)
  show "equivp ((=) :: nat \<times> nat \<Rightarrow> nat \<times> nat \<Rightarrow> bool)"
    by (rule identity_equivp)
next
  fix s :: "nat \<times> nat"
  show "\<exists>t. simplify linear_engine s = Inr t \<and> s = t"
    by (simp add: linear_engine_def)
  show "\<exists>t. factor linear_engine s = Inr t \<and> s = t"
    by (simp add: linear_engine_def)
  show "\<exists>t. expand linear_engine s = Inr t \<and> s = t"
    by (simp add: linear_engine_def)
  show "\<exists>e t. parse_value linear_engine (str linear_engine s) = Inr e
      \<and> symbolic_value linear_engine e = Inr t \<and> s = t"
    by (simp add: linear_parse_value linear_symbolic_value linear_form_value)
next
  fix e e' :: expr and s :: "nat \<times> nat"
  assume "equivalent linear_engine (=) e e'" and "symbolic_value linear_engine e = Inr s"
  then show "\<exists>s'. symbolic_value linear_engine e' = Inr s' \<and> s = s'"
    using equivalent_linear_value [of e e' s]
    by (simp add: linear_symbolic_value split: option.splits)
next
  fix e n :: expr and s :: "nat \<times> nat"
  assume "symbolic_value linear_engine e = Inr s" and "n \<in> set (expr_nodes e)"
  then show "\<exists>t. symbolic_value linear_engine n = Inr t"
    using linear_value_nodes [of e s n]
    by (auto simp: linear_symbolic_value split: option.splits)
qed

text \<open>
  Claim C8. For an engine with these laws: when \<open>optimize_tree\<close> has returned a
  tree, \<open>optimize_tree\<close> on that tree returns a tree again, and the two are equal under
  the engine's equivalence.
\<close>

theorem optimize_twice:
  assumes laws: "engine_laws E eqv"
    and once: "optimize_tree E x tree = Inr tree'"
  shows "\<exists>tree''. optimize_tree E x tree' = Inr tree'' \<and> equivalent_module E eqv tree' tree''"
proof -
  from once have "list_all2 (bottom_up_stmt E x) (body tree) (body tree')"
    by (auto simp: optimize_tree_def bind_result_eq_Inr visit_stmts_iff_bottom_up)
  then have "binops_readable E (concat (map stmt_nodes (body tree')))"
    by (induction rule: list_all2_induct) (simp_all add: bottom_up_stmt_readable [OF laws])
  from visit_stmt_readable(2) [OF laws this] obtain ss''
    where ss: "Transformer_visit_stmts E x (body tree') = Inr ss''"
      "list_all2 (equivalent_stmt E eqv) (body tree') ss''"
    by blast
  then have "optimize_tree E x tree' = Inr (Module ss'')"
    "equivalent_module E eqv tree' (Module ss'')"
    by (simp_all add: optimize_tree_def bind_result_Inr equivalent_module_def)
  then show ?thesis
    by blast
qed

text \<open>
  The example \<^verbatim>\<open>a = 2 * x + 2 * x\<close> of the test suite: the engine of linear
  polynomials returns \<^verbatim>\<open>a = 4 * x\<close>, a tree with a binary operation, and the second
  run, which renders, reads and rewrites that product, returns the same tree.
\<close>

theorem optimize_twice_witness:
  "optimize_tree linear_engine False
     (Module [Assign [Name ''a'']
        (BinOp (BinOp (Constant (IntC 2)) Mult (Name ''x'')) Add
               (BinOp (Constant (IntC 2)) Mult (Name ''x''))) 1])
   = Inr (Module [Assign [Name ''a''] (BinOp (Constant (IntC 4)) Mult (Name ''x'')) 1])
   \<and> (\<exists>tree''. optimize_tree linear_engine False
          (Module [Assign [Name ''a''] (BinOp (Constant (IntC 4)) Mult (Name ''x'')) 1]) = Inr tree''
        \<and> equivalent_module linear_engine (=)
            (Module [Assign [Name ''a''] (BinOp (Constant (IntC 4)) Mult (Name ''x'')) 1]) tree'')
   \<and> optimize_tree linear_engine False
       (Module [Assign [Name ''a''] (BinOp (Constant (IntC 4)) Mult (Name ''x'')) 1])
     = Inr (Module [Assign [Name ''a''] (BinOp (Constant (IntC 4)) Mult (Name ''x'')) 1])"
proof -
  have once: "optimize_tree linear_engine False
     (Module [Assign [Name ''a'']
        (BinOp (BinOp (Constant (IntC 2)) Mult (Name ''x'')) Add
               (BinOp (Constant (IntC 2)) Mult (Name ''x''))) 1])
   = Inr (Module [Assign [Name ''a''] (BinOp (Constant (IntC 4)) Mult (Name ''x'')) 1])"
    by (simp add: optimize_tree_def bind_result_Inr linear_optimize_node linear_form_def
        linear_term_def)
  have twice: "optimize_tree linear_engine False
       (Module [Assign [Name ''a''] (BinOp (Constant (IntC 4)) Mult (Name ''x'')) 1])
     = Inr (Module [Assign [Name ''a''] (BinOp (Constant (IntC 4)) Mult (Name ''x'')) 1])"
    by (simp add: optimize_tree_def bind_result_Inr linear_optimize_node linear_form_def
        linear_term_def)
  from optimize_twice [OF linear_engine_laws once] once twice show ?thesis
    by blast
qed

end
